theory Spec2Isabelle
  imports Complex_Main "HOL-Library.Word"
begin

section \<open>The exporter (tools/exporter.cpp): data\<close>

text \<open>
  Floats are values of a type variable \<open>'f\<close>. The code only subtracts, multiplies and
  divides them and writes three literals (\<open>1.0f\<close>, \<open>0.5f\<close>, \<open>16.0f\<close>), so the
  functions ask of \<open>'f\<close> just the operations they use; no law of real arithmetic is
  used by any proof about them.

  A C \<open>int\<close> and a \<open>uint32_t\<close> are both \<open>32 word\<close>: \<open>sint\<close> reads the first,
  \<open>unat\<close> the second, and a cast between the two keeps the bits. A pointer into an
  array is the index of its element, an \<open>int\<close> that may lie outside the array.
\<close>

record 'f Vec2 =
  x :: 'f
  y :: 'f

datatype 'f Vec3 = Vec3 'f 'f 'f

record 'f SimpleVertex =
  position :: "'f Vec3"
  normal :: "'f Vec3"
  texcoord :: "'f Vec2"

record 'f Vertex =
  position :: "'f Vec3"
  normal :: "'f Vec3"
  tangent :: "'f Vec3"
  bitangent :: "'f Vec3"
  texcoord :: "'f Vec2"

record int3 =
  p :: "32 word"
  t :: "32 word"
  n :: "32 word"

datatype Triangle = Triangle int3 int3 int3

text \<open>
  What stops the program: a failed \<open>assert\<close>; an access outside an array or a vector
  (undefined in C++, an error here, with the array that was missed); a \<open>%s\<close> that
  writes more than its destination holds; an \<open>int\<close> counter stepping past \<open>INT_MAX\<close>;
  \<open>new\<close> with a negative length; and \<open>exit\<close>, with its status, what was printed
  before it and the pointer that was handed to \<open>free_file_data\<close>.
\<close>

datatype access =
    Positions | Texcoords | Normals
  | Source_vertices | Index_buffer | New_vertices
  | Materials | Meshes | Models | All_triangles

datatype error =
    AssertFailed
  | OutOfBounds access
  | BufferOverflow
  | IntOverflow
  | BadArrayLength
  | Exit int string "string option"

section \<open>The key of the vertex map\<close>

text \<open>\<open>int3::operator<\<close>: the fields are compared as signed ints, \<open>p\<close> first.\<close>

definition int3_less :: "int3 \<Rightarrow> int3 \<Rightarrow> bool" where
  "int3_less lh rh =
     (if sint (p lh) < sint (p rh) then True
      else if sint (p lh) > sint (p rh) then False
      else if sint (t lh) < sint (t rh) then True
      else if sint (t lh) > sint (t rh) then False
      else if sint (n lh) < sint (n rh) then True
      else if sint (n lh) > sint (n rh) then False
      else False)"

text \<open>
  \<open>std::map<int3, int>\<close>: the entries in the order they were inserted. The map never
  compares keys with \<open>==\<close>: two keys are the same key when neither is less than the
  other.
\<close>

type_synonym vertex_map = "(int3 \<times> 32 word) list"

definition same_key :: "int3 \<Rightarrow> int3 \<Rightarrow> bool" where
  "same_key a b = (\<not> int3_less a b \<and> \<not> int3_less b a)"

definition map_find :: "vertex_map \<Rightarrow> int3 \<Rightarrow> (int3 \<times> 32 word) option" where
  "map_find m k = find (\<lambda>e. same_key (fst e) k) m"

definition map_assign :: "vertex_map \<Rightarrow> int3 \<Rightarrow> 32 word \<Rightarrow> vertex_map" where
  "map_assign m k v =
     (case map_find m k of
        None \<Rightarrow> m @ [(k, v)]
      | Some _ \<Rightarrow> map (\<lambda>e. if same_key (fst e) k then (fst e, v) else e) m)"

section \<open>The vertex deduplicator (the loop of \<open>_load_obj\<close>, lines 461 to 490)\<close>

text \<open>
  The vertex of one corner: \<open>positions[p-1]\<close>, \<open>texcoords[t]\<close>, \<open>normals[n-1]\<close>, each
  index cast to \<open>uint32_t\<close>, and the v channel of the texture coordinate flipped.
\<close>

definition make_vertex ::
  "'f Vec3 list \<Rightarrow> ('f::{one,minus}) Vec2 list \<Rightarrow> 'f Vec3 list \<Rightarrow> int3
     \<Rightarrow> error + 'f SimpleVertex" where
  "make_vertex positions texcoords normals index =
     (let pos_index = p index - 1;
          tex_index = t index;
          norm_index = n index - 1
      in if \<not> unat pos_index < length positions then Inl (OutOfBounds Positions)
         else if \<not> unat tex_index < length texcoords then Inl (OutOfBounds Texcoords)
         else if \<not> unat norm_index < length normals then Inl (OutOfBounds Normals)
         else
           (let vertex = \<lparr> SimpleVertex.position = positions ! unat pos_index,
                           SimpleVertex.normal = normals ! unat norm_index,
                           SimpleVertex.texcoord = texcoords ! unat tex_index \<rparr>
            in Inr (vertex \<lparr> SimpleVertex.texcoord :=
                      (SimpleVertex.texcoord vertex)
                        \<lparr> y := 1 - y (SimpleVertex.texcoord vertex) \<rparr> \<rparr>)))"

text \<open>One round of the loop, on the map \<open>m\<close>, the vertices \<open>v\<close> and the indices \<open>i\<close>.\<close>

definition dedup_step ::
  "'f Vec3 list \<Rightarrow> ('f::{one,minus}) Vec2 list \<Rightarrow> 'f Vec3 list \<Rightarrow> int3
     \<Rightarrow> vertex_map \<times> 'f SimpleVertex list \<times> 32 word list
     \<Rightarrow> error + (vertex_map \<times> 'f SimpleVertex list \<times> 32 word list)" where
  "dedup_step positions texcoords normals index st =
     (case st of (m, v, i) \<Rightarrow>
        (case map_find m index of
           Some iter \<Rightarrow> Inr (m, v, i @ [snd iter])
         | None \<Rightarrow>
             (case make_vertex positions texcoords normals index of
                Inl e \<Rightarrow> Inl e
              | Inr vertex \<Rightarrow>
                  Inr (map_assign m index (word_of_nat (length v)),
                       v @ [vertex],
                       i @ [word_of_nat (length v)]))))"

fun dedup_loop ::
  "'f Vec3 list \<Rightarrow> ('f::{one,minus}) Vec2 list \<Rightarrow> 'f Vec3 list \<Rightarrow> int3 list
     \<Rightarrow> vertex_map \<times> 'f SimpleVertex list \<times> 32 word list
     \<Rightarrow> error + (vertex_map \<times> 'f SimpleVertex list \<times> 32 word list)" where
  "dedup_loop positions texcoords normals [] st = Inr st"
| "dedup_loop positions texcoords normals (index # rest) st =
     (case dedup_step positions texcoords normals index st of
        Inl e \<Rightarrow> Inl e
      | Inr st' \<Rightarrow> dedup_loop positions texcoords normals rest st')"

text \<open>
  The loop runs \<open>ii\<close> from 0 while \<open>ii < num_indices\<close>, and \<open>num_indices\<close> is the size
  of the corner list cast to \<open>int\<close>: a list of \<open>2^31\<close> corners or more is cut short.
\<close>

definition dedup ::
  "'f Vec3 list \<Rightarrow> ('f::{one,minus}) Vec2 list \<Rightarrow> 'f Vec3 list \<Rightarrow> int3 list
     \<Rightarrow> error + (vertex_map \<times> 'f SimpleVertex list \<times> 32 word list)" where
  "dedup positions texcoords normals indices =
     (let num_indices = (word_of_nat (length indices) :: 32 word)
      in dedup_loop positions texcoords normals
           (take (nat (sint num_indices)) indices) ([], [], []))"

text \<open>
  Modelled from the spec: the corner list of a group. The loop reads \<open>all_indices[jj]\<close>,
  a vector of corners that no pass of \<open>_load_obj\<close> fills and the file never declares;
  the spec (section 9) has the stage work on the group's triangle list, corner by corner.
\<close>

fun triangle_corners :: "Triangle list \<Rightarrow> int3 list" where
  "triangle_corners [] = []"
| "triangle_corners (Triangle a b c # rest) = a # b # c # triangle_corners rest"

section \<open>The tangent-space calculator (\<open>calculate_tangets\<close>)\<close>

text \<open>
  Modelled from the spec: \<open>vec3_sub\<close>, \<open>vec3_mul_scalar\<close> and \<open>vec2_sub\<close> of
  \<open>vec_math.h\<close>, which is not under src/; the spec takes them as the usual
  componentwise operations (section 4.5).
\<close>

definition vec3_sub :: "('f::minus) Vec3 \<Rightarrow> 'f Vec3 \<Rightarrow> 'f Vec3" where
  "vec3_sub a b = (case a of Vec3 ax ay az \<Rightarrow> case b of Vec3 bx by bz \<Rightarrow>
     Vec3 (ax - bx) (ay - by) (az - bz))"

definition vec3_mul_scalar :: "('f::times) Vec3 \<Rightarrow> 'f \<Rightarrow> 'f Vec3" where
  "vec3_mul_scalar a s = (case a of Vec3 ax ay az \<Rightarrow> Vec3 (ax * s) (ay * s) (az * s))"

definition vec2_sub :: "('f::minus) Vec2 \<Rightarrow> 'f Vec2 \<Rightarrow> 'f Vec2" where
  "vec2_sub a b = \<lparr> x = x a - x b, y = y a - y b \<rparr>"

text \<open>
  The index buffer comes as a \<open>void*\<close> with the size of one index: 16-bit indices when
  \<open>index_size\<close> is 2, 32-bit indices otherwise. The two are one value here.
\<close>

datatype index_buffer = U16 "16 word list" | U32 "32 word list"

definition read_index :: "index_buffer \<Rightarrow> nat \<Rightarrow> error + 32 word" where
  "read_index indices k =
     (case indices of
        U16 xs \<Rightarrow> if k < length xs then Inr (ucast (xs ! k)) else Inl (OutOfBounds Index_buffer)
      | U32 xs \<Rightarrow> if k < length xs then Inr (xs ! k) else Inl (OutOfBounds Index_buffer))"

text \<open>The tangent and the bitangent of one triangle, from its three vertices.\<close>

definition triangle_basis ::
  "('f::{one,minus,times,inverse}) Vertex \<Rightarrow> 'f Vertex \<Rightarrow> 'f Vertex \<Rightarrow> 'f Vec3 \<times> 'f Vec3" where
  "triangle_basis v0 v1 v2 =
     (let delta_pos1 = vec3_sub (Vertex.position v1) (Vertex.position v0);
          delta_pos2 = vec3_sub (Vertex.position v2) (Vertex.position v0);
          delta_uv1 = vec2_sub (Vertex.texcoord v1) (Vertex.texcoord v0);
          delta_uv2 = vec2_sub (Vertex.texcoord v2) (Vertex.texcoord v0);
          r = 1 / (x delta_uv1 * y delta_uv2 - y delta_uv1 * x delta_uv2);
          a = vec3_mul_scalar delta_pos1 (y delta_uv2);
          b = vec3_mul_scalar delta_pos2 (y delta_uv1);
          tangent_v = vec3_sub a b;
          tangent_v = vec3_mul_scalar tangent_v r;
          a = vec3_mul_scalar delta_pos2 (x delta_uv1);
          b = vec3_mul_scalar delta_pos1 (x delta_uv2);
          bitangent_v = vec3_sub a b;
          bitangent_v = vec3_mul_scalar bitangent_v r
      in (tangent_v, bitangent_v))"

text \<open>
  One round of the second loop. \<open>v0\<close>, \<open>v1\<close> and \<open>v2\<close> are references into
  \<open>new_vertices\<close>, here the three indices; the six assignments go through them one
  after the other.
\<close>

definition tangent_step ::
  "index_buffer \<Rightarrow> nat \<Rightarrow> ('f::{one,minus,times,inverse}) Vertex list \<Rightarrow> error + 'f Vertex list" where
  "tangent_step indices ii new_vertices =
     (if int ii + 2 > 2147483647 then Inl IntOverflow
      else
        case read_index indices (ii + 0) of Inl e \<Rightarrow> Inl e | Inr i0 \<Rightarrow>
        case read_index indices (ii + 1) of Inl e \<Rightarrow> Inl e | Inr i1 \<Rightarrow>
        case read_index indices (ii + 2) of Inl e \<Rightarrow> Inl e | Inr i2 \<Rightarrow>
        if unat i0 < length new_vertices \<and> unat i1 < length new_vertices
           \<and> unat i2 < length new_vertices
        then
          (let v0 = unat i0; v1 = unat i1; v2 = unat i2;
               tb = triangle_basis (new_vertices ! v0) (new_vertices ! v1) (new_vertices ! v2);
               nv = new_vertices;
               nv = nv[v0 := (nv ! v0) \<lparr> bitangent := snd tb \<rparr>];
               nv = nv[v1 := (nv ! v1) \<lparr> bitangent := snd tb \<rparr>];
               nv = nv[v2 := (nv ! v2) \<lparr> bitangent := snd tb \<rparr>];
               nv = nv[v0 := (nv ! v0) \<lparr> tangent := fst tb \<rparr>];
               nv = nv[v1 := (nv ! v1) \<lparr> tangent := fst tb \<rparr>];
               nv = nv[v2 := (nv ! v2) \<lparr> tangent := fst tb \<rparr>]
           in Inr nv)
        else Inl (OutOfBounds New_vertices))"

function tangent_loop ::
  "index_buffer \<Rightarrow> nat \<Rightarrow> nat \<Rightarrow> ('f::{one,minus,times,inverse}) Vertex list \<Rightarrow> error + 'f Vertex list" where
  "tangent_loop indices num_indices ii new_vertices =
     (if ii < num_indices then
        (case tangent_step indices ii new_vertices of
           Inl e \<Rightarrow> Inl e
         | Inr nv \<Rightarrow> tangent_loop indices num_indices (ii + 3) nv)
      else Inr new_vertices)"
  by pat_completeness auto
termination
  by (relation "measure (\<lambda>(indices, num_indices, ii, nv). num_indices - ii)") auto

text \<open>
  The first loop. \<open>new Vertex[num_vertices]\<close> leaves the new vertices as they come:
  \<open>fresh\<close> gives what slot \<open>ii\<close> held before its three fields were copied.
\<close>

definition copy_vertices ::
  "(nat \<Rightarrow> 'f Vertex) \<Rightarrow> 'f SimpleVertex list \<Rightarrow> nat \<Rightarrow> 'f Vertex list" where
  "copy_vertices fresh vertices num =
     map (\<lambda>ii. (fresh ii) \<lparr> Vertex.position := SimpleVertex.position (vertices ! ii),
                             Vertex.normal := SimpleVertex.normal (vertices ! ii),
                             Vertex.texcoord := SimpleVertex.texcoord (vertices ! ii) \<rparr>)
       [0 ..< num]"

definition calculate_tangets ::
  "(nat \<Rightarrow> 'f Vertex) \<Rightarrow> ('f::{one,minus,times,inverse}) SimpleVertex list \<Rightarrow> 32 word
     \<Rightarrow> index_buffer \<Rightarrow> 32 word \<Rightarrow> error + 'f Vertex list" where
  "calculate_tangets fresh vertices num_vertices indices num_indices =
     (if sint num_vertices < 0 then Inl BadArrayLength
      else if nat (sint num_vertices) > length vertices then Inl (OutOfBounds Source_vertices)
      else
        tangent_loop indices (nat (sint num_indices)) 0
          (copy_vertices fresh vertices (nat (sint num_vertices))))"

text \<open>
  One round of the loop over the groups (lines 462 to 508): the deduplicator, then the
  tangents of its vertex and index buffers. The name the round builds and the vertices
  it deletes again leave no trace.
\<close>

definition create_mesh ::
  "(nat \<Rightarrow> 'f Vertex) \<Rightarrow> 'f Vec3 list \<Rightarrow> ('f::{one,minus,times,inverse}) Vec2 list \<Rightarrow> 'f Vec3 list
     \<Rightarrow> int3 list \<Rightarrow> error + 'f Vertex list \<times> 32 word list" where
  "create_mesh fresh positions texcoords normals indices =
     (case dedup positions texcoords normals indices of
        Inl e \<Rightarrow> Inl e
      | Inr (m, v, i) \<Rightarrow>
          (let vertex_count = (word_of_nat (length v) :: 32 word);
               index_count = (word_of_nat (length i) :: 32 word)
           in case calculate_tangets fresh v vertex_count (U32 i) index_count of
                Inl e \<Rightarrow> Inl e
              | Inr new_vertices \<Rightarrow> Inr (new_vertices, i)))"

section \<open>Notions the properties of the two stages are stated with\<close>

text \<open>The distinct corners of a list, each at the place of its first occurrence.\<close>

definition first_seen :: "'a list \<Rightarrow> 'a list" where
  "first_seen xs = rev (remdups (rev xs))"

text \<open>
  The loop invariant of the deduplicator, after the corners \<open>seen\<close>: the map holds the
  distinct corners in the order of their first occurrence, each with its place in that
  order; the vertex buffer holds their vertices; and every index written so far leads
  back to its corner.
\<close>

definition dedup_inv ::
  "'f Vec3 list \<Rightarrow> ('f::{one,minus}) Vec2 list \<Rightarrow> 'f Vec3 list \<Rightarrow> int3 list
     \<Rightarrow> vertex_map \<times> 'f SimpleVertex list \<times> 32 word list \<Rightarrow> bool" where
  "dedup_inv P T N seen st =
     (case st of (m, v, i) \<Rightarrow>
        map fst m = first_seen seen
      \<and> map snd m = map word_of_nat [0..<length (first_seen seen)]
      \<and> map Inr v = map (make_vertex P T N) (first_seen seen)
      \<and> length i = length seen
      \<and> (\<forall>j<length seen. unat (i ! j) < length (first_seen seen)
             \<and> first_seen seen ! unat (i ! j) = seen ! j))"

text \<open>
  The triangles of an index buffer, three indices at a time, as the second loop of
  \<open>calculate_tangets\<close> meets them from index \<open>ii\<close> on; and the last of them that
  refers to vertex \<open>k\<close>.
\<close>

function triangles_from :: "index_buffer \<Rightarrow> nat \<Rightarrow> nat \<Rightarrow> (nat \<times> nat \<times> nat) list" where
  "triangles_from indices num_indices ii =
     (if ii < num_indices then
        (case (read_index indices ii, read_index indices (ii + 1), read_index indices (ii + 2)) of
           (Inr i0, Inr i1, Inr i2) \<Rightarrow>
              (unat i0, unat i1, unat i2) # triangles_from indices num_indices (ii + 3)
         | _ \<Rightarrow> [])
      else [])"
  by pat_completeness auto
termination
  by (relation "measure (\<lambda>(indices, num_indices, ii). num_indices - ii)") auto

definition uses_vertex :: "nat \<Rightarrow> nat \<times> nat \<times> nat \<Rightarrow> bool" where
  "uses_vertex k tri = (case tri of (a, b, c) \<Rightarrow> k = a \<or> k = b \<or> k = c)"

definition last_triangle_of ::
  "nat \<Rightarrow> (nat \<times> nat \<times> nat) list \<Rightarrow> (nat \<times> nat \<times> nat) option" where
  "last_triangle_of k tris = find (uses_vertex k) (rev tris)"

definition same_attributes :: "'f Vertex \<Rightarrow> 'f Vertex \<Rightarrow> bool" where
  "same_attributes u v \<longleftrightarrow>
     Vertex.position u = Vertex.position v \<and> Vertex.normal u = Vertex.normal v
     \<and> Vertex.texcoord u = Vertex.texcoord v"

definition in_range :: "nat \<Rightarrow> nat \<times> nat \<times> nat \<Rightarrow> bool" where
  "in_range len tri = (case tri of (a, b, c) \<Rightarrow> a < len \<and> b < len \<and> c < len)"

definition carries ::
  "('f::{one,minus,times,inverse}) Vertex list \<Rightarrow> (nat \<times> nat \<times> nat) option
     \<Rightarrow> 'f Vertex \<Rightarrow> 'f Vertex \<Rightarrow> bool" where
  "carries vs last_tri before after =
     (case last_tri of
        None \<Rightarrow> tangent after = tangent before \<and> bitangent after = bitangent before
      | Some (a, b, c) \<Rightarrow>
          tangent after = fst (triangle_basis (vs ! a) (vs ! b) (vs ! c))
        \<and> bitangent after = snd (triangle_basis (vs ! a) (vs ! b) (vs ! c)))"

declare tangent_loop.simps [simp del] triangles_from.simps [simp del]

section \<open>Lines and \<open>sscanf\<close>\<close>

text \<open>
  Modelled from the spec: \<open>get_line_from_buffer\<close> of \<open>utility.h\<close>, which is not under
  src/. Section 4.1: it yields the next newline-delimited record, cut to the working
  buffer (\<open>line_size\<close> bytes with the terminator), and the cursor after it, or the end.
  A cursor is the text from its place to the end of the buffer; \<open>None\<close> is \<open>NULL\<close>.
\<close>

definition get_line_from_buffer :: "nat \<Rightarrow> string \<Rightarrow> string \<times> string option" where
  "get_line_from_buffer line_size buffer =
     (take (line_size - 1) (takeWhile (\<lambda>c. c \<noteq> CHR 0x0A) buffer),
      case dropWhile (\<lambda>c. c \<noteq> CHR 0x0A) buffer of [] \<Rightarrow> None | _ # rest \<Rightarrow> Some rest)"

text \<open>
  Every pass is \<open>while(1) { if(file_data == NULL) break; \<dots> get_line_from_buffer \<dots> }\<close>
  with a \<open>line[1024]\<close>. The rounds it makes from a cursor: \<open>this_line\<close> (the cursor
  before the call), the line, and \<open>next_line\<close> (the cursor after it).
\<close>

function scan_lines :: "string option \<Rightarrow> (string \<times> string \<times> string option) list" where
  "scan_lines None = []"
| "scan_lines (Some buffer) =
     (buffer, fst (get_line_from_buffer 1024 buffer), snd (get_line_from_buffer 1024 buffer))
       # scan_lines (snd (get_line_from_buffer 1024 buffer))"
  by pat_completeness auto
termination
proof (relation "measure (\<lambda>c. case c of None \<Rightarrow> 0 | Some b \<Rightarrow> Suc (length b))")
  show "wf (measure (\<lambda>c. case c of None \<Rightarrow> 0 | Some b \<Rightarrow> Suc (length b)))"
    by simp
next
  fix buffer :: string
  let ?rest = "dropWhile (\<lambda>c. c \<noteq> CHR 0x0A) buffer"
  have "length ?rest \<le> length buffer"
    by (rule length_dropWhile_le)
  then show "(snd (get_line_from_buffer 1024 buffer), Some buffer)
      \<in> measure (\<lambda>c. case c of None \<Rightarrow> 0 | Some b \<Rightarrow> Suc (length b))"
  proof (cases ?rest)
    case Nil
    show ?thesis unfolding get_line_from_buffer_def Nil by simp
  next
    case (Cons a rest)
    from \<open>length ?rest \<le> length buffer\<close>
    show ?thesis unfolding get_line_from_buffer_def Cons by simp
  qed
qed

text \<open>The body of a loop, round after round, until one of them stops the program.\<close>

fun for_each :: "('a \<Rightarrow> 's \<Rightarrow> error + 's) \<Rightarrow> 'a list \<Rightarrow> 's \<Rightarrow> error + 's" where
  "for_each body [] s = Inr s"
| "for_each body (r # rs) s =
     (case body r s of Inl e \<Rightarrow> Inl e | Inr s' \<Rightarrow> for_each body rs s')"

text \<open>
  The C library's \<open>sscanf\<close>, for the formats of this file: white space in the format
  skips white space, any other character must match, \<open>%s\<close> reads a word, \<open>%d\<close> a
  decimal integer and \<open>%f\<close> a float, each after skipping white space. The scan stops
  at the first directive that fails; its result is the values converted so far.
  How a float is read is left to \<open>strtof\<close>, which yields the value and the rest of the
  input.
\<close>

definition isspace :: "char \<Rightarrow> bool" where
  "isspace c \<longleftrightarrow> c = CHR '' '' \<or> c = CHR 0x09 \<or> c = CHR 0x0A \<or> c = CHR 0x0B
                 \<or> c = CHR 0x0C \<or> c = CHR 0x0D"

definition isdigit :: "char \<Rightarrow> bool" where
  "isdigit c \<longleftrightarrow> c \<in> set ''0123456789''"

definition digit_value :: "char \<Rightarrow> int" where
  "digit_value c = int (of_char c) - 48"

definition decimal_value :: "string \<Rightarrow> int" where
  "decimal_value ds = foldl (\<lambda>a c. 10 * a + digit_value c) 0 ds"

definition scan_int :: "string \<Rightarrow> (int \<times> string) option" where
  "scan_int inp =
     (let (neg, body) = (case inp of
                           c # r \<Rightarrow> if c = CHR ''-'' then (True, r)
                                    else if c = CHR ''+'' then (False, r)
                                    else (False, inp)
                         | [] \<Rightarrow> (False, inp));
          ds = takeWhile isdigit body
      in if ds = [] then None
         else Some (if neg then - decimal_value ds else decimal_value ds,
                    dropWhile isdigit body))"

datatype directive = Space | Lit char | PctS | PctD | PctF

fun parse_format :: "string \<Rightarrow> directive list" where
  "parse_format [] = []"
| "parse_format [c] = (if isspace c then [Space] else [Lit c])"
| "parse_format (c # d # r) =
     (if c = CHR ''%'' \<and> d = CHR ''s'' then PctS # parse_format r
      else if c = CHR ''%'' \<and> d = CHR ''d'' then PctD # parse_format r
      else if c = CHR ''%'' \<and> d = CHR ''f'' then PctF # parse_format r
      else if isspace c then Space # parse_format (d # r)
      else Lit c # parse_format (d # r))"

datatype 'f scanned = Str_val string | Int_val int | Float_val 'f

fun scan ::
  "(string \<Rightarrow> ('f \<times> string) option) \<Rightarrow> string \<Rightarrow> directive list \<Rightarrow> 'f scanned list" where
  "scan strtof inp [] = []"
| "scan strtof inp (Space # ds) = scan strtof (dropWhile isspace inp) ds"
| "scan strtof inp (Lit c # ds) =
     (case inp of [] \<Rightarrow> [] | a # r \<Rightarrow> if a = c then scan strtof r ds else [])"
| "scan strtof inp (PctS # ds) =
     (let body = dropWhile isspace inp;
          tok = takeWhile (\<lambda>c. \<not> isspace c) body
      in if tok = [] then []
         else Str_val tok # scan strtof (dropWhile (\<lambda>c. \<not> isspace c) body) ds)"
| "scan strtof inp (PctD # ds) =
     (case scan_int (dropWhile isspace inp) of
        None \<Rightarrow> []
      | Some (v, r) \<Rightarrow> Int_val v # scan strtof r ds)"
| "scan strtof inp (PctF # ds) =
     (case strtof (dropWhile isspace inp) of
        None \<Rightarrow> []
      | Some (v, r) \<Rightarrow> Float_val v # scan strtof r ds)"

definition sscanf ::
  "(string \<Rightarrow> ('f \<times> string) option) \<Rightarrow> string \<Rightarrow> string \<Rightarrow> 'f scanned list" where
  "sscanf strtof inp format = scan strtof inp (parse_format format)"

text \<open>
  What \<open>sscanf\<close> returns: the number of values converted, or \<open>EOF\<close> when the input
  ended before the first of them (every format here starts with \<open>%s\<close>).
\<close>

definition matches_of :: "'f scanned list \<Rightarrow> int" where
  "matches_of vs = (if vs = [] then - 1 else int (length vs))"

text \<open>A format without \<open>%f\<close> reads no float.\<close>

definition no_float :: "string \<Rightarrow> (unit \<times> string) option" where
  "no_float inp = None"

text \<open>A \<open>%s\<close> into a \<open>char[capacity]\<close> needs room for the word and its terminator.\<close>

definition store :: "nat \<Rightarrow> string \<Rightarrow> error + string" where
  "store capacity tok = (if length tok < capacity then Inr tok else Inl BufferOverflow)"

text \<open>
  \<open>char line_header[capacity] = {0}; sscanf(line, "%s", line_header);\<close> An empty line
  leaves the header empty.
\<close>

definition line_header :: "nat \<Rightarrow> string \<Rightarrow> error + string" where
  "line_header capacity line =
     (case sscanf no_float line ''%s'' of
        Str_val h # _ \<Rightarrow> store capacity h
      | _ \<Rightarrow> Inr [])"

text \<open>
  \<open>matches = sscanf(inp, "%s %s\n", line_header, dest)\<close> with \<open>dest\<close> a
  \<open>char[capacity]\<close>: the number of matches, and the word written to \<open>dest\<close> if one was.
\<close>

definition scan_name :: "nat \<Rightarrow> nat \<Rightarrow> string \<Rightarrow> error + int \<times> string option" where
  "scan_name header_capacity capacity inp =
     (let vs = sscanf no_float inp ''%s %s\<newline>'' in
      case vs of
        [Str_val h] \<Rightarrow>
          (case store header_capacity h of
             Inl e \<Rightarrow> Inl e
           | Inr _ \<Rightarrow> Inr (matches_of vs, None))
      | [Str_val h, Str_val s] \<Rightarrow>
          (case store header_capacity h of
             Inl e \<Rightarrow> Inl e
           | Inr _ \<Rightarrow>
               (case store capacity s of
                  Inl e \<Rightarrow> Inl e
                | Inr s' \<Rightarrow> Inr (matches_of vs, Some s')))
      | _ \<Rightarrow> Inr (matches_of vs, None))"

text \<open>
  \<open>strncpy(dest, src, count)\<close> with \<open>dest\<close> a \<open>char[capacity]\<close>. It writes \<open>count\<close> bytes
  whatever the length of the source (the text, then zeros), so a count beyond the
  capacity runs over the end of the destination. Within the capacity, the destination
  holds the first \<open>count\<close> characters of the source.
\<close>

definition strncpy :: "nat \<Rightarrow> string \<Rightarrow> nat \<Rightarrow> error + string" where
  "strncpy capacity src count =
     (if capacity < count then Inl BufferOverflow else Inr (take count src))"

text \<open>\<open>std::ostringstream << k\<close> for an integer.\<close>

definition digit_char :: "nat \<Rightarrow> char" where
  "digit_char d = char_of (48 + d)"

fun decimal :: "nat \<Rightarrow> string" where
  "decimal k = (if k < 10 then [digit_char k] else decimal (k div 10) @ [digit_char (k mod 10)])"

definition decimal_int :: "int \<Rightarrow> string" where
  "decimal_int k = (if k < 0 then CHR ''-'' # decimal (nat (- k)) else decimal (nat k))"

section \<open>The scene\<close>

record 'f MaterialData =
  name :: string
  albedo_tex :: string
  normal_tex :: string
  specular_color :: "'f Vec3"
  specular_power :: 'f
  specular_coefficient :: 'f

record 'f MeshData =
  name :: string
  vertices :: "'f Vertex list"
  indices :: "32 word"
  vertex_count :: "32 word"
  index_count :: "32 word"

record ModelData =
  mesh_name :: string
  material_name :: string

record 'f SceneData =
  meshes :: "'f MeshData list"
  materials :: "'f MaterialData list"
  models :: "ModelData list"
  num_meshes :: "32 word"
  num_materials :: "32 word"
  num_models :: "32 word"

text \<open>\<open>SceneData scene = {0}\<close>.\<close>

definition scene0 :: "'f SceneData" where
  "scene0 = \<lparr> meshes = [], materials = [], models = [],
              num_meshes = 0, num_materials = 0, num_models = 0 \<rparr>"

text \<open>
  The files are a function from names to contents. \<open>load_file_data\<close> asserts that the
  file opens.
\<close>

definition load_file_data :: "(string \<Rightarrow> string option) \<Rightarrow> string \<Rightarrow> error + string" where
  "load_file_data fs filename =
     (case fs filename of None \<Rightarrow> Inl AssertFailed | Some d \<Rightarrow> Inr d)"

text \<open>
  \<open>realloc\<close> to \<open>count\<close> elements keeps the elements there were and does not clear the
  new ones: \<open>fresh k\<close> is what the storage of slot \<open>k\<close> holds when it is handed out.
\<close>

definition realloc_array :: "(nat \<Rightarrow> 'a) \<Rightarrow> 'a list \<Rightarrow> nat \<Rightarrow> 'a list" where
  "realloc_array fresh xs count = take count xs @ map fresh [length xs ..< count]"

text \<open>A read and a write through a pointer into an array.\<close>

definition read_at :: "access \<Rightarrow> 'a list \<Rightarrow> int \<Rightarrow> error + 'a" where
  "read_at which xs k =
     (if 0 \<le> k \<and> k < int (length xs) then Inr (xs ! nat k) else Inl (OutOfBounds which))"

definition update_at :: "access \<Rightarrow> 'a list \<Rightarrow> int \<Rightarrow> ('a \<Rightarrow> 'a) \<Rightarrow> error + 'a list" where
  "update_at which xs k f =
     (if 0 \<le> k \<and> k < int (length xs) then Inr (xs[nat k := f (xs ! nat k)])
      else Inl (OutOfBounds which))"

section \<open>The material library parser (\<open>_load_mtl_file\<close>)\<close>

text \<open>The first loop counts the \<open>newmtl\<close> lines.\<close>

definition mtl_count_body ::
  "string \<times> string \<times> string option \<Rightarrow> 'f SceneData \<Rightarrow> error + 'f SceneData" where
  "mtl_count_body rec scene =
     (case rec of (this_line, line, next_line) \<Rightarrow>
      case line_header 64 line of Inl e \<Rightarrow> Inl e | Inr header \<Rightarrow>
      if header = ''newmtl'' then Inr (scene \<lparr> num_materials := num_materials scene + 1 \<rparr>)
      else Inr scene)"

text \<open>
  The second loop, on \<open>current_material\<close> and the material table. \<open>sscanf\<close> writes
  through \<open>current_material\<close> before the \<open>assert\<close> looks at \<open>matches\<close>.
\<close>

definition mtl_body ::
  "(string \<Rightarrow> (('f::numeral) \<times> string) option) \<Rightarrow> string \<times> string \<times> string option
     \<Rightarrow> int \<times> 'f MaterialData list \<Rightarrow> error + int \<times> 'f MaterialData list" where
  "mtl_body strtof rec st =
     (case rec of (this_line, line, next_line) \<Rightarrow>
      case st of (current_material, mats) \<Rightarrow>
      case line_header 64 line of Inl e \<Rightarrow> Inl e | Inr header \<Rightarrow>
      if header = ''newmtl'' then
        (let current_material = current_material + 1 in
         case scan_name 64 128 line of Inl e \<Rightarrow> Inl e | Inr (matches, tok) \<Rightarrow>
         case update_at Materials mats current_material
                (\<lambda>m. m \<lparr> MaterialData.name :=
                             (case tok of Some s \<Rightarrow> s | None \<Rightarrow> MaterialData.name m),
                         specular_power := 16 \<rparr>) of
           Inl e \<Rightarrow> Inl e
         | Inr mats \<Rightarrow> if matches = 2 then Inr (current_material, mats) else Inl AssertFailed)
      else if header = ''map_Kd'' then
        (case scan_name 64 128 line of Inl e \<Rightarrow> Inl e | Inr (matches, tok) \<Rightarrow>
         case tok of
           None \<Rightarrow> Inl AssertFailed
         | Some s \<Rightarrow>
             (case update_at Materials mats current_material (\<lambda>m. m \<lparr> albedo_tex := s \<rparr>) of
                Inl e \<Rightarrow> Inl e
              | Inr mats \<Rightarrow>
                  if matches = 2 then Inr (current_material, mats) else Inl AssertFailed))
      else if header = ''map_bump'' \<or> header = ''map_bump'' then
        (case read_at Materials mats current_material of Inl e \<Rightarrow> Inl e | Inr m \<Rightarrow>
         if normal_tex m = [] then
           (case scan_name 64 128 line of Inl e \<Rightarrow> Inl e | Inr (matches, tok) \<Rightarrow>
            case tok of
              None \<Rightarrow> Inl AssertFailed
            | Some s \<Rightarrow>
                (case update_at Materials mats current_material (\<lambda>m. m \<lparr> normal_tex := s \<rparr>) of
                   Inl e \<Rightarrow> Inl e
                 | Inr mats \<Rightarrow>
                     if matches = 2 then Inr (current_material, mats) else Inl AssertFailed))
         else Inr (current_material, mats))
      else if header = ''Ks'' then
        (case sscanf strtof line ''%s %f %f %f\<newline>'' of
           [Str_val h, Float_val a, Float_val b, Float_val c] \<Rightarrow>
             (case update_at Materials mats current_material
                     (\<lambda>m. m \<lparr> specular_color := Vec3 a b c \<rparr>) of
                Inl e \<Rightarrow> Inl e
              | Inr mats \<Rightarrow> Inr (current_material, mats))
         | _ \<Rightarrow> Inl AssertFailed)
      else if header = ''Ns'' then
        (case sscanf strtof line ''%s %f\<newline>'' of
           [Str_val h, Float_val a] \<Rightarrow>
             (case update_at Materials mats current_material
                     (\<lambda>m. m \<lparr> specular_coefficient := a \<rparr>) of
                Inl e \<Rightarrow> Inl e
              | Inr mats \<Rightarrow> Inr (current_material, mats))
         | _ \<Rightarrow> Inl AssertFailed)
      else Inr (current_material, mats))"

definition load_mtl_file ::
  "(string \<Rightarrow> string option) \<Rightarrow> (string \<Rightarrow> (('f::numeral) \<times> string) option)
     \<Rightarrow> (nat \<Rightarrow> 'f MaterialData) \<Rightarrow> string \<Rightarrow> 'f SceneData \<Rightarrow> error + 'f SceneData" where
  "load_mtl_file fs strtof fresh_material filename scene =
     (case load_file_data fs filename of Inl e \<Rightarrow> Inl e | Inr data \<Rightarrow>
      let file_data = Some data;
          original_data = file_data;
          orig_num_materials = sint (num_materials scene)
      in
      case for_each mtl_count_body (scan_lines file_data) scene of
        Inl e \<Rightarrow> Inl e
      | Inr scene \<Rightarrow>
         (let file_data = original_data;
              scene = scene \<lparr> materials :=
                        realloc_array fresh_material (materials scene)
                          (unat (num_materials scene)) \<rparr>;
              current_material = orig_num_materials - 1
          in
          case for_each (mtl_body strtof) (scan_lines file_data)
                 (current_material, materials scene) of
            Inl e \<Rightarrow> Inl e
          | Inr (current_material, mats) \<Rightarrow> Inr (scene \<lparr> materials := mats \<rparr>)))"

section \<open>The scene geometry parser (\<open>_load_obj\<close>)\<close>

text \<open>\<open>Vec2 tex = {0.5f, 0.5f}\<close>, the first element of \<open>texcoords\<close>.\<close>

definition tex :: "('f::{numeral,inverse}) Vec2" where
  "tex = \<lparr> x = 0.5, y = 0.5 \<rparr>"

text \<open>
  The count pass, on the four local counters and the scene. (The local \<open>num_meshes\<close>
  is \<open>file_meshes\<close> here, the scene has a field of that name.)
\<close>

definition count_body ::
  "(string \<Rightarrow> string option) \<Rightarrow> (string \<Rightarrow> (('f::numeral) \<times> string) option)
     \<Rightarrow> (nat \<Rightarrow> 'f MaterialData) \<Rightarrow> string \<times> string \<times> string option
     \<Rightarrow> 32 word \<times> 32 word \<times> 32 word \<times> 32 word \<times> 'f SceneData
     \<Rightarrow> error + 32 word \<times> 32 word \<times> 32 word \<times> 32 word \<times> 'f SceneData" where
  "count_body fs strtof fresh_material rec st =
     (case rec of (this_line, line, next_line) \<Rightarrow>
      case st of (num_total_vertices, num_total_texcoords, num_total_normals, file_meshes, scene) \<Rightarrow>
      case line_header 16 line of Inl e \<Rightarrow> Inl e | Inr header \<Rightarrow>
      if header = ''v'' then
        Inr (num_total_vertices + 1, num_total_texcoords, num_total_normals, file_meshes, scene)
      else if header = ''vt'' then
        Inr (num_total_vertices, num_total_texcoords + 1, num_total_normals, file_meshes, scene)
      else if header = ''vn'' then
        Inr (num_total_vertices, num_total_texcoords, num_total_normals + 1, file_meshes, scene)
      else if header = ''usemtl'' then
        Inr (num_total_vertices, num_total_texcoords, num_total_normals, file_meshes + 1,
             scene \<lparr> num_meshes := num_meshes scene + 1, num_models := num_models scene + 1 \<rparr>)
      else if header = ''mtllib'' then
        (case scan_name 16 256 line of Inl e \<Rightarrow> Inl e | Inr (matches, tok) \<Rightarrow>
         case tok of None \<Rightarrow> Inl AssertFailed | Some mtl_filename \<Rightarrow>
         if matches \<noteq> 2 then Inl AssertFailed
         else
           case load_mtl_file fs strtof fresh_material mtl_filename scene of
             Inl e \<Rightarrow> Inl e
           | Inr scene \<Rightarrow>
               Inr (num_total_vertices, num_total_texcoords, num_total_normals, file_meshes,
                    scene))
      else Inr st)"

text \<open>The attribute-fill pass, on the three arrays and the flag \<open>textured\<close>.\<close>

definition fill_body ::
  "(string \<Rightarrow> ('f \<times> string) option) \<Rightarrow> string \<times> string \<times> string option
     \<Rightarrow> 'f Vec3 list \<times> 'f Vec3 list \<times> 'f Vec2 list \<times> int
     \<Rightarrow> error + 'f Vec3 list \<times> 'f Vec3 list \<times> 'f Vec2 list \<times> int" where
  "fill_body strtof rec st =
     (case rec of (this_line, line, next_line) \<Rightarrow>
      case st of (positions, normals, texcoords, textured) \<Rightarrow>
      case line_header 16 line of Inl e \<Rightarrow> Inl e | Inr header \<Rightarrow>
      if header = ''v'' then
        (case sscanf strtof line ''%s %f %f %f\<newline>'' of
           [Str_val h, Float_val a, Float_val b, Float_val c] \<Rightarrow>
             Inr (positions @ [Vec3 a b c], normals, texcoords, 0)
         | _ \<Rightarrow> Inl AssertFailed)
      else if header = ''vt'' then
        (case sscanf strtof line ''%s %f %f\<newline>'' of
           [Str_val h, Float_val a, Float_val b] \<Rightarrow>
             Inr (positions, normals, texcoords @ [\<lparr> x = a, y = b \<rparr>], 1)
         | _ \<Rightarrow> Inl AssertFailed)
      else if header = ''vn'' then
        (case sscanf strtof line ''%s %f %f %f\<newline>'' of
           [Str_val h, Float_val a, Float_val b, Float_val c] \<Rightarrow>
             Inr (positions, normals @ [Vec3 a b c], texcoords, textured)
         | _ \<Rightarrow> Inl AssertFailed)
      else Inr (positions, normals, texcoords, textured))"

text \<open>
  A face record. \<open>int3 triangle[4]\<close> takes the integers \<open>sscanf\<close> converted, in the
  order of the format (a field that was not converted is never read). The message is
  \<open>printf("Can't load this OBJ\n")\<close>.
\<close>

definition int_at :: "'f scanned list \<Rightarrow> nat \<Rightarrow> 32 word" where
  "int_at vs k =
     (if k < length vs then (case vs ! k of Int_val v \<Rightarrow> word_of_int v | _ \<Rightarrow> 0) else 0)"

definition cant_load :: string where
  "cant_load = ''Can'' @ [CHR 0x27] @ ''t load this OBJ\<newline>''"

definition face_format_textured :: string where
  "face_format_textured = ''%s %d/%d/%d %d/%d/%d %d/%d/%d %d/%d/%d\<newline>''"

definition face_format_untextured :: string where
  "face_format_untextured = ''%s %d//%d %d//%d %d//%d %d//%d\<newline>''"

definition face_record :: "int \<Rightarrow> string option \<Rightarrow> string \<Rightarrow> error + Triangle list" where
  "face_record textured original_data line =
     (if textured \<noteq> 0 then
        (let vs = sscanf no_float line face_format_textured;
             matches = matches_of vs;
             triangle = (\<lambda>k. \<lparr> p = int_at vs (1 + 3 * k), t = int_at vs (2 + 3 * k),
                                n = int_at vs (3 + 3 * k) \<rparr>)
         in if matches \<noteq> 10 \<and> matches \<noteq> 13 then Inl (Exit 1 cant_load original_data)
            else Inr (Triangle (triangle 0) (triangle 1) (triangle 2)
                      # (if matches = 13 then [Triangle (triangle 0) (triangle 2) (triangle 3)]
                         else [])))
      else
        (let vs = sscanf no_float line face_format_untextured;
             matches = matches_of vs;
             triangle = (\<lambda>k. \<lparr> p = int_at vs (1 + 2 * k), t = 0, n = int_at vs (2 + 2 * k) \<rparr>)
         in if matches \<noteq> 7 \<and> matches \<noteq> 9 then Inl (Exit 1 cant_load original_data)
            else
              (let matches = (if matches = 9 then 13 else matches)
               in Inr (Triangle (triangle 0) (triangle 1) (triangle 2)
                       # (if matches = 13 then [Triangle (triangle 0) (triangle 2) (triangle 3)]
                          else [])))))"

text \<open>
  A \<open>usemtl\<close> record, after the three cursors have stepped: lines 386 to 403, which
  read the material name into the local \<open>char material_name[256]\<close>, name the mesh and
  copy its name to the model. \<open>prev_line[0] == 'g'\<close> reads the first character at the
  cursor; at the very end of the buffer there is none. The fields \<open>MeshData.name\<close> and
  \<open>ModelData.mesh_name\<close> are \<open>char[128]\<close>. The result is the material name read and the
  scene.
\<close>

definition starts_with_g :: "string option \<Rightarrow> bool" where
  "starts_with_g ptr = (case ptr of Some (c # _) \<Rightarrow> c = CHR ''g'' | _ \<Rightarrow> False)"

definition usemtl_names ::
  "string \<Rightarrow> string option \<Rightarrow> string option \<Rightarrow> int \<Rightarrow> int \<Rightarrow> 'f SceneData
     \<Rightarrow> error + string \<times> 'f SceneData" where
  "usemtl_names line prev_line next_line current_mesh current_model scene =
     (case scan_name 16 256 line of Inl e \<Rightarrow> Inl e | Inr (matches, tok) \<Rightarrow>
      case tok of None \<Rightarrow> Inl AssertFailed | Some material_name' \<Rightarrow>
      if matches \<noteq> 2 then Inl AssertFailed
      else
        case
          (if prev_line \<noteq> None \<and> starts_with_g prev_line then
             (case scan_name 16 128 (the prev_line) of Inl e \<Rightarrow> Inl e | Inr (matches, tok) \<Rightarrow>
              case tok of None \<Rightarrow> Inl AssertFailed | Some s \<Rightarrow>
              case update_at Meshes (meshes scene) current_mesh (\<lambda>m. m \<lparr> MeshData.name := s \<rparr>) of
                Inl e \<Rightarrow> Inl e
              | Inr ms \<Rightarrow> if matches = 2 then Inr ms else Inl AssertFailed)
           else if next_line \<noteq> None \<and> starts_with_g next_line then
             (case scan_name 16 128 (the next_line) of Inl e \<Rightarrow> Inl e | Inr (matches, tok) \<Rightarrow>
              case tok of None \<Rightarrow> Inl AssertFailed | Some s \<Rightarrow>
              case update_at Meshes (meshes scene) current_mesh (\<lambda>m. m \<lparr> MeshData.name := s \<rparr>) of
                Inl e \<Rightarrow> Inl e
              | Inr ms \<Rightarrow> if matches = 2 then Inr ms else Inl AssertFailed)
           else
             (case strncpy 128 (''mesh'' @ decimal_int current_mesh) 128 of
                Inl e \<Rightarrow> Inl e
              | Inr s \<Rightarrow>
                  update_at Meshes (meshes scene) current_mesh (\<lambda>m. m \<lparr> MeshData.name := s \<rparr>)))
        of Inl e \<Rightarrow> Inl e
         | Inr ms \<Rightarrow>
            (case read_at Meshes ms current_mesh of Inl e \<Rightarrow> Inl e | Inr mesh \<Rightarrow>
             case strncpy 128 (MeshData.name mesh) 128 of Inl e \<Rightarrow> Inl e | Inr s \<Rightarrow>
             case update_at Models (models scene) current_model (\<lambda>m. m \<lparr> mesh_name := s \<rparr>) of
               Inl e \<Rightarrow> Inl e
             | Inr mds \<Rightarrow> Inr (material_name', scene \<lparr> meshes := ms, models := mds \<rparr>)))"

text \<open>
  The whole of the record: the lines above, then line 404,
  \<open>strncpy(current_model->material_name, material_name, sizeof(material_name))\<close>. The
  count is the size of the local buffer, 256, and the field \<open>ModelData.material_name\<close>
  is a \<open>char[128]\<close>: the copy writes 128 bytes beyond the field.
\<close>

definition usemtl_record ::
  "string \<Rightarrow> string option \<Rightarrow> string option \<Rightarrow> int \<Rightarrow> int \<Rightarrow> 'f SceneData
     \<Rightarrow> error + 'f SceneData" where
  "usemtl_record line prev_line next_line current_mesh current_model scene =
     (case usemtl_names line prev_line next_line current_mesh current_model scene of
        Inl e \<Rightarrow> Inl e
      | Inr (material_name', scene) \<Rightarrow>
          (case strncpy 128 material_name' 256 of Inl e \<Rightarrow> Inl e | Inr s \<Rightarrow>
           case update_at Models (models scene) current_model (\<lambda>m. m \<lparr> material_name := s \<rparr>) of
             Inl e \<Rightarrow> Inl e
           | Inr mds \<Rightarrow> Inr (scene \<lparr> models := mds \<rparr>)))"

text \<open>
  The group/face pass, on the three cursors \<open>mesh_triangles\<close>, \<open>current_mesh\<close> and
  \<open>current_model\<close>, the triangle lists, the scene and \<open>prev_line\<close>.
\<close>

definition group_body ::
  "int \<Rightarrow> string option \<Rightarrow> string \<times> string \<times> string option
     \<Rightarrow> int \<times> int \<times> int \<times> Triangle list list \<times> 'f SceneData \<times> string option
     \<Rightarrow> error + int \<times> int \<times> int \<times> Triangle list list \<times> 'f SceneData \<times> string option" where
  "group_body textured original_data rec st =
     (case rec of (this_line, line, next_line) \<Rightarrow>
      case st of (mesh_triangles, current_mesh, current_model, all_triangles, scene, prev_line) \<Rightarrow>
      case line_header 16 line of Inl e \<Rightarrow> Inl e | Inr header \<Rightarrow>
      if header = ''usemtl'' then
        (let mesh_triangles = mesh_triangles + 1;
             current_mesh = current_mesh + 1;
             current_model = current_model + 1
         in case usemtl_record line prev_line next_line current_mesh current_model scene of
              Inl e \<Rightarrow> Inl e
            | Inr scene \<Rightarrow>
                Inr (mesh_triangles, current_mesh, current_model, all_triangles, scene,
                     Some this_line))
      else if header = ''f'' then
        (case face_record textured original_data line of Inl e \<Rightarrow> Inl e | Inr tris \<Rightarrow>
         case update_at All_triangles all_triangles mesh_triangles (\<lambda>ts. ts @ tris) of
           Inl e \<Rightarrow> Inl e
         | Inr all_triangles \<Rightarrow>
             Inr (mesh_triangles, current_mesh, current_model, all_triangles, scene,
                  Some this_line))
      else Inr (mesh_triangles, current_mesh, current_model, all_triangles, scene,
                Some this_line))"

text \<open>
  \<open>_load_obj\<close>, up to the loop over the groups. After the count pass the statement is
  \<open>original_data = file_data\<close> (line 322, and again line 361), not the other way
  round as in \<open>_load_mtl_file\<close>: the loop before it ends only when \<open>file_data\<close> is
  \<open>NULL\<close>, so the two passes that follow start from \<open>NULL\<close>.
  The result is the scene with what the passes built.
\<close>

definition load_obj ::
  "(string \<Rightarrow> string option) \<Rightarrow> (string \<Rightarrow> (('f::{numeral,inverse}) \<times> string) option)
     \<Rightarrow> (nat \<Rightarrow> 'f MaterialData) \<Rightarrow> (nat \<Rightarrow> 'f MeshData) \<Rightarrow> (nat \<Rightarrow> ModelData)
     \<Rightarrow> string \<Rightarrow> 'f SceneData
     \<Rightarrow> error + 'f SceneData \<times> 'f Vec3 list \<times> 'f Vec2 list \<times> 'f Vec3 list \<times> Triangle list list" where
  "load_obj fs strtof fresh_material fresh_mesh fresh_model filename scene =
     (let texcoords = [tex] in
      case load_file_data fs filename of Inl e \<Rightarrow> Inl e | Inr data \<Rightarrow>
      let file_data = Some data;
          original_data = file_data;
          orig_num_meshes = sint (num_meshes scene);
          orig_num_models = sint (num_models scene)
      in
      case for_each (count_body fs strtof fresh_material) (scan_lines file_data)
             (0, 0, 0, 0, scene) of
        Inl e \<Rightarrow> Inl e
      | Inr (num_total_vertices, num_total_texcoords, num_total_normals, file_meshes, scene) \<Rightarrow>
      let file_data = None;
          original_data = file_data;
          all_triangles = replicate (unat file_meshes) [];
          scene = scene \<lparr> meshes :=
                    realloc_array fresh_mesh (meshes scene) (unat (num_meshes scene)) \<rparr>;
          scene = scene \<lparr> models :=
                    realloc_array fresh_model (models scene) (unat (num_models scene)) \<rparr>
      in
      case for_each (fill_body strtof) (scan_lines file_data) ([], [], texcoords, 0) of
        Inl e \<Rightarrow> Inl e
      | Inr (positions, normals, texcoords, textured) \<Rightarrow>
      let original_data = file_data;
          mesh_triangles = - 1;
          current_mesh = orig_num_meshes - 1;
          current_model = orig_num_models - 1
      in
      case for_each (group_body textured original_data) (scan_lines file_data)
             (mesh_triangles, current_mesh, current_model, all_triangles, scene, None) of
        Inl e \<Rightarrow> Inl e
      | Inr (mesh_triangles, current_mesh, current_model, all_triangles, scene, prev_line) \<Rightarrow>
          Inr (scene, positions, texcoords, normals, all_triangles))"

text \<open>\<open>main\<close>: every argument after the program's name, one after the other, into one scene.\<close>

definition load_files ::
  "(string \<Rightarrow> string option) \<Rightarrow> (string \<Rightarrow> (('f::{numeral,inverse}) \<times> string) option)
     \<Rightarrow> (nat \<Rightarrow> 'f MaterialData) \<Rightarrow> (nat \<Rightarrow> 'f MeshData) \<Rightarrow> (nat \<Rightarrow> ModelData)
     \<Rightarrow> string list \<Rightarrow> 'f SceneData \<Rightarrow> error + 'f SceneData" where
  "load_files fs strtof fresh_material fresh_mesh fresh_model files scene =
     for_each
       (\<lambda>filename scene.
          case load_obj fs strtof fresh_material fresh_mesh fresh_model filename scene of
            Inl e \<Rightarrow> Inl e
          | Inr r \<Rightarrow> Inr (fst r))
       files scene"

definition main ::
  "(string \<Rightarrow> string option) \<Rightarrow> (string \<Rightarrow> (('f::{numeral,inverse}) \<times> string) option)
     \<Rightarrow> (nat \<Rightarrow> 'f MaterialData) \<Rightarrow> (nat \<Rightarrow> 'f MeshData) \<Rightarrow> (nat \<Rightarrow> ModelData)
     \<Rightarrow> string list \<Rightarrow> error + 'f SceneData" where
  "main fs strtof fresh_material fresh_mesh fresh_model argv =
     load_files fs strtof fresh_material fresh_mesh fresh_model (tl argv) scene0"

section \<open>Notions the properties of the parsers are stated with\<close>

text \<open>The white-space separated words of a text, and the conversions of a format.\<close>

function tokens :: "string \<Rightarrow> string list" where
  "tokens inp =
     (if dropWhile isspace inp = [] then []
      else takeWhile (\<lambda>c. \<not> isspace c) (dropWhile isspace inp)
             # tokens (dropWhile (\<lambda>c. \<not> isspace c) (dropWhile isspace inp)))"
  by pat_completeness auto
termination
proof (relation "measure length")
  show "wf (measure length)" by simp
next
  fix inp :: string
  assume ne: "dropWhile isspace inp \<noteq> []"
  then obtain c rest where b: "dropWhile isspace inp = c # rest"
    by (cases "dropWhile isspace inp") auto
  have "\<not> isspace c" using b hd_dropWhile [of isspace inp] by auto
  then have "length (dropWhile (\<lambda>c. \<not> isspace c) (c # rest)) \<le> length rest"
    by (simp add: length_dropWhile_le)
  moreover have "length (c # rest) \<le> length inp"
    using length_dropWhile_le [of isspace inp] b by simp
  ultimately show "(dropWhile (\<lambda>c. \<not> isspace c) (dropWhile isspace inp), inp) \<in> measure length"
    by (simp add: b)
qed

declare tokens.simps [simp del]

definition conversions :: "directive list \<Rightarrow> nat" where
  "conversions ds = length (filter (\<lambda>d. d = PctS \<or> d = PctD \<or> d = PctF) ds)"

text \<open>The header of a record of a material library, and the number of \<open>newmtl\<close> records.\<close>

definition mtl_header :: "string \<times> string \<times> string option \<Rightarrow> error + string" where
  "mtl_header rec = line_header 64 (fst (snd rec))"

definition newmtl_count :: "(string \<times> string \<times> string option) list \<Rightarrow> nat" where
  "newmtl_count rs = length (filter (\<lambda>r. mtl_header r = Inr ''newmtl'') rs)"

text \<open>
  The header of a record of a scene file; the number of \<open>usemtl\<close> records of a list of
  records, and of a file.
\<close>

definition obj_header :: "string \<times> string \<times> string option \<Rightarrow> error + string" where
  "obj_header rec = line_header 16 (fst (snd rec))"

definition usemtl_count :: "(string \<times> string \<times> string option) list \<Rightarrow> nat" where
  "usemtl_count rs = length (filter (\<lambda>r. obj_header r = Inr ''usemtl'') rs)"

text \<open>The last record of a list that is a \<open>v\<close> or a \<open>vt\<close> record.\<close>

definition last_v_or_vt ::
  "(string \<times> string \<times> string option) list \<Rightarrow> (string \<times> string \<times> string option) option" where
  "last_v_or_vt rs = find (\<lambda>r. obj_header r = Inr ''v'' \<or> obj_header r = Inr ''vt'') (rev rs)"

definition file_usemtl_count :: "(string \<Rightarrow> string option) \<Rightarrow> string \<Rightarrow> nat" where
  "file_usemtl_count fs filename =
     (case fs filename of None \<Rightarrow> 0 | Some data \<Rightarrow> usemtl_count (scan_lines (Some data)))"




section \<open>Sample inputs\<close>

text \<open>A small group: two triangles, six corners, four of them distinct.\<close>

definition ex_positions :: "real Vec3 list" where
  "ex_positions = [Vec3 0 0 0, Vec3 1 0 0, Vec3 0 1 0]"

definition ex_texcoords :: "real Vec2 list" where
  "ex_texcoords = [\<lparr>x = 1/2, y = 1/2\<rparr>, \<lparr>x = 0, y = 0\<rparr>, \<lparr>x = 1, y = 1/4\<rparr>]"

definition ex_normals :: "real Vec3 list" where
  "ex_normals = [Vec3 0 0 1]"

definition ex_corners :: "int3 list" where
  "ex_corners =
     triangle_corners
       [Triangle \<lparr>p = 1, t = 1, n = 1\<rparr> \<lparr>p = 2, t = 2, n = 1\<rparr> \<lparr>p = 3, t = 0, n = 1\<rparr>,
        Triangle \<lparr>p = 1, t = 1, n = 1\<rparr> \<lparr>p = 3, t = 0, n = 1\<rparr> \<lparr>p = 2, t = 1, n = 1\<rparr>]"

text \<open>A quad of two triangles that share the vertices 0 and 2.\<close>

definition ex_quad :: "real SimpleVertex list" where
  "ex_quad =
     [\<lparr>SimpleVertex.position = Vec3 0 0 0, normal = Vec3 0 0 1, texcoord = \<lparr>x = 0, y = 0\<rparr>\<rparr>,
      \<lparr>SimpleVertex.position = Vec3 1 0 0, normal = Vec3 0 0 1, texcoord = \<lparr>x = 1, y = 0\<rparr>\<rparr>,
      \<lparr>SimpleVertex.position = Vec3 1 1 0, normal = Vec3 0 0 1, texcoord = \<lparr>x = 1, y = 1\<rparr>\<rparr>,
      \<lparr>SimpleVertex.position = Vec3 0 1 0, normal = Vec3 0 0 1, texcoord = \<lparr>x = 0, y = 2\<rparr>\<rparr>]"

definition ex_fresh :: "nat \<Rightarrow> real Vertex" where
  "ex_fresh k = \<lparr>Vertex.position = Vec3 7 7 7, normal = Vec3 7 7 7, tangent = Vec3 7 7 7,
                 bitangent = Vec3 7 7 7, texcoord = \<lparr>x = 7, y = 7\<rparr>\<rparr>"

text \<open>A float scanner that reads the integers, enough for the sample files.\<close>

definition ex_strtof :: "string \<Rightarrow> (real \<times> string) option" where
  "ex_strtof inp = (case scan_int inp of None \<Rightarrow> None | Some (v, r) \<Rightarrow> Some (of_int v, r))"

text \<open>
  A material library with two \<open>map_bump\<close> lines for its first material, and two
  states of the storage \<open>realloc\<close> hands out: cleared, and holding the text of a file
  that was freed before.
\<close>

definition ex_mtl :: string where
  "ex_mtl = ''newmtl Metal\<newline>map_bump first.png\<newline>map_bump second.png\<newline>Ns 5\<newline>Ks 1 2 3\<newline>newmtl Wood\<newline>''"

text \<open>
  A scene file of two groups: a triangle, and a face of five corners. The first group
  is named by the \<open>g\<close> line before it.
\<close>

definition ex_obj :: string where
  "ex_obj = ''mtllib a.mtl\<newline>v 0 0 0\<newline>v 1 0 0\<newline>v 0 1 0\<newline>vt 0 0\<newline>vn 0 0 1\<newline>g Turret\<newline>usemtl Metal\<newline>f 1/1/1 2/1/1 3/1/1\<newline>usemtl Wood\<newline>f 1/1/1 2/1/1 3/1/1 2/1/1 3/1/1\<newline>''"

definition ex_fs :: "string \<Rightarrow> string option" where
  "ex_fs f = (if f = ''a.mtl'' then Some ex_mtl
              else if f = ''a.obj'' then Some ex_obj
              else None)"

definition ex_fresh_mesh :: "nat \<Rightarrow> real MeshData" where
  "ex_fresh_mesh k = \<lparr> MeshData.name = [], vertices = [], indices = 0, vertex_count = 0,
                       index_count = 0 \<rparr>"

definition ex_fresh_model :: "nat \<Rightarrow> ModelData" where
  "ex_fresh_model k = \<lparr> mesh_name = [], material_name = [] \<rparr>"

definition ex_fresh_material :: "nat \<Rightarrow> real MaterialData" where
  "ex_fresh_material k = \<lparr> MaterialData.name = [], albedo_tex = [], normal_tex = [],
     specular_color = Vec3 0 0 0, specular_power = 0, specular_coefficient = 0 \<rparr>"

definition ex_stale_material :: "nat \<Rightarrow> real MaterialData" where
  "ex_stale_material k = \<lparr> MaterialData.name = ''v 1 2 3'', albedo_tex = ''v 1 2 3'',
     normal_tex = ''v 1 2 3'', specular_color = Vec3 7 7 7, specular_power = 7,
     specular_coefficient = 7 \<rparr>"




section \<open>Properties of the key order\<close>

lemma sint_inject: "sint (a :: 32 word) = sint b \<longleftrightarrow> a = b"
  by (auto intro: signed_word_eqI)

lemma same_key_iff: "same_key a b \<longleftrightarrow> a = b"
  by (cases a; cases b)
    (auto simp: same_key_def int3_less_def sint_inject split: if_splits)

section \<open>The deduplicator\<close>

lemma first_seen_snoc:
  "first_seen (xs @ [c]) = (if c \<in> set xs then first_seen xs else first_seen xs @ [c])"
  by (simp add: first_seen_def)

lemma first_seen_Nil: "first_seen [] = []"
  by (simp add: first_seen_def)

lemma set_first_seen: "set (first_seen xs) = set xs"
  by (simp add: first_seen_def)

lemma distinct_first_seen: "distinct (first_seen xs)"
  by (simp add: first_seen_def)

lemma length_first_seen: "length (first_seen xs) = card (set xs)"
  by (metis distinct_card distinct_first_seen set_first_seen)

lemma length_first_seen_le: "length (first_seen xs) \<le> length xs"
  by (simp add: first_seen_def) (metis length_remdups_leq length_rev)

lemma dedup_inv_init: "dedup_inv P T N [] ([], [], [])"
  by (simp add: dedup_inv_def first_seen_Nil)

lemma map_find_None: "map_find m k = None \<longleftrightarrow> k \<notin> set (map fst m)"
  by (force simp: map_find_def find_None_iff same_key_iff)

lemma map_find_Some:
  "map_find m k = Some e \<Longrightarrow> \<exists>j<length m. m ! j = e \<and> fst e = k"
  by (auto simp: map_find_def find_Some_iff same_key_iff)

lemma unat_of_nat32: "k < 2 ^ 32 \<Longrightarrow> unat (word_of_nat k :: 32 word) = k"
  by (simp add: unat_of_nat)

lemma dedup_step_inv:
  assumes inv: "dedup_inv P T N seen st"
    and len: "length seen < 2 ^ 32"
    and step: "dedup_step P T N c st = Inr st'"
  shows "dedup_inv P T N (seen @ [c]) st'"
proof -
  obtain m v i where st: "st = (m, v, i)" by (cases st) auto
  let ?keys = "first_seen seen"
  from inv st have keys: "map fst m = ?keys"
    and slots: "map snd m = map word_of_nat [0..<length ?keys]"
    and verts: "map Inr v = map (make_vertex P T N) ?keys"
    and li: "length i = length seen"
    and bk: "\<And>j. j < length seen \<Longrightarrow> unat (i ! j) < length ?keys \<and> ?keys ! unat (i ! j) = seen ! j"
    by (auto simp: dedup_inv_def)
  have lm: "length m = length ?keys" using keys by (metis length_map)
  have lv: "length v = length ?keys" using verts by (metis length_map)
  have klen: "length ?keys < 2 ^ 32" using length_first_seen_le [of seen] len by simp
  show ?thesis
  proof (cases "map_find m c")
    case None
    then have notin: "c \<notin> set seen"
      using keys by (simp add: map_find_None set_first_seen)
    from None step st obtain vertex where mv: "make_vertex P T N c = Inr vertex"
      and st': "st' = (m @ [(c, word_of_nat (length v))], v @ [vertex], i @ [word_of_nat (length v)])"
      by (auto simp: dedup_step_def map_assign_def split: sum.splits)
    have fs: "first_seen (seen @ [c]) = ?keys @ [c]"
      using notin by (simp add: first_seen_snoc)
    have u: "unat (word_of_nat (length v) :: 32 word) = length ?keys"
      using klen lv by (simp add: unat_of_nat32)
    show ?thesis
      unfolding st' dedup_inv_def fs
      using keys slots verts li bk mv lv u
      by (auto simp: nth_append less_Suc_eq)
  next
    case (Some e)
    then obtain j where j: "j < length m" "m ! j = e" "fst e = c"
      by (auto dest: map_find_Some)
    from Some step st have st': "st' = (m, v, i @ [snd e])"
      by (auto simp: dedup_step_def)
    have kj: "?keys ! j = c" using j keys lm by (metis nth_map)
    have "c \<in> set ?keys" using kj j lm by (metis nth_mem)
    then have inn: "c \<in> set seen" by (simp add: set_first_seen)
    have fs: "first_seen (seen @ [c]) = ?keys"
      using inn by (simp add: first_seen_snoc)
    have "snd e = map snd m ! j" using j by simp
    also have "\<dots> = word_of_nat j" using slots j lm by simp
    finally have se: "snd e = word_of_nat j" .
    have u: "unat (snd e) = j" using se j lm klen by (simp add: unat_of_nat32)
    show ?thesis
      unfolding st' dedup_inv_def fs
      using keys slots verts li bk u kj j lm
      by (auto simp: nth_append less_Suc_eq)
  qed
qed

lemma dedup_loop_inv:
  "dedup_inv P T N seen st \<Longrightarrow> length seen + length cs \<le> 2 ^ 32
     \<Longrightarrow> dedup_loop P T N cs st = Inr st' \<Longrightarrow> dedup_inv P T N (seen @ cs) st'"
proof (induction cs arbitrary: seen st)
  case Nil
  then show ?case by simp
next
  case (Cons c cs)
  from Cons.prems(3) obtain st1 where s1: "dedup_step P T N c st = Inr st1"
    and rest: "dedup_loop P T N cs st1 = Inr st'"
    by (auto split: sum.splits)
  have "dedup_inv P T N (seen @ [c]) st1"
    using Cons.prems(1,2) s1 by (intro dedup_step_inv [where st = st]) auto
  then have "dedup_inv P T N ((seen @ [c]) @ cs) st'"
    using Cons.prems(2) rest by (intro Cons.IH [where st = st1]) auto
  then show ?case by simp
qed

lemma dedup_take_all:
  fixes indices :: "'a list"
  shows "length indices < 2 ^ 31 \<Longrightarrow>
   take (nat (sint (word_of_nat (length indices) :: 32 word))) indices = indices"
proof -
  assume a: "length indices < 2 ^ 31"
  have "sint (word_of_nat (length indices) :: 32 word) = int (length indices)"
    using a by (simp add: signed_of_nat signed_take_bit_int_eq_self)
  then show ?thesis by simp
qed

lemma dedup_final_inv:
  fixes indices :: "int3 list"
  assumes "length indices < 2 ^ 31"
    and "dedup positions texcoords normals indices = Inr st"
  shows "dedup_inv positions texcoords normals indices st"
proof -
  have loop: "dedup_loop positions texcoords normals indices ([], [], []) = Inr st"
    using assms by (simp add: dedup_def dedup_take_all)
  have "dedup_inv positions texcoords normals ([] @ indices) st"
    using assms(1) loop by (intro dedup_loop_inv [OF dedup_inv_init]) auto
  then show ?thesis by simp
qed

lemma make_vertex_fields:
  "make_vertex P T N c = Inr vx \<Longrightarrow>
     SimpleVertex.position vx = P ! unat (p c - 1)
   \<and> SimpleVertex.normal vx = N ! unat (n c - 1)
   \<and> SimpleVertex.texcoord vx = (T ! unat (t c)) \<lparr> y := 1 - y (T ! unat (t c)) \<rparr>"
  by (auto simp: make_vertex_def Let_def split: if_splits)

lemma ex_texcoords_tex: "ex_texcoords = tex # [\<lparr>x = 0, y = 0\<rparr>, \<lparr>x = 1, y = 1/4\<rparr>]"
  by (simp add: ex_texcoords_def tex_def)

lemma ex_corners_run:
  "dedup ex_positions ex_texcoords ex_normals ex_corners
     = Inr ([(\<lparr>p = 1, t = 1, n = 1\<rparr>, 0), (\<lparr>p = 2, t = 2, n = 1\<rparr>, 1),
             (\<lparr>p = 3, t = 0, n = 1\<rparr>, 2), (\<lparr>p = 2, t = 1, n = 1\<rparr>, 3)],
            [\<lparr>SimpleVertex.position = Vec3 0 0 0, normal = Vec3 0 0 1, texcoord = \<lparr>x = 0, y = 1\<rparr>\<rparr>,
             \<lparr>SimpleVertex.position = Vec3 1 0 0, normal = Vec3 0 0 1, texcoord = \<lparr>x = 1, y = 3/4\<rparr>\<rparr>,
             \<lparr>SimpleVertex.position = Vec3 0 1 0, normal = Vec3 0 0 1, texcoord = \<lparr>x = 1/2, y = 1/2\<rparr>\<rparr>,
             \<lparr>SimpleVertex.position = Vec3 1 0 0, normal = Vec3 0 0 1, texcoord = \<lparr>x = 0, y = 1\<rparr>\<rparr>],
            [0, 1, 2, 0, 2, 3])"
  by (simp add: dedup_def dedup_step_def map_find_def map_assign_def same_key_iff
      make_vertex_def ex_corners_def ex_positions_def ex_texcoords_def ex_normals_def)

lemma ex_corners_first_seen:
  "first_seen ex_corners = [\<lparr>p = 1, t = 1, n = 1\<rparr>, \<lparr>p = 2, t = 2, n = 1\<rparr>,
                            \<lparr>p = 3, t = 0, n = 1\<rparr>, \<lparr>p = 2, t = 1, n = 1\<rparr>]"
  by (simp add: first_seen_def ex_corners_def)

text \<open>
  Claim C1, as amended. A group's corner list of fewer than \<open>2^31\<close> corners whose
  indices are all in range (the deduplicator returns) gives: one index per corner; two
  corners get the same index exactly when they carry the same \<open>(p,t,n)\<close>; the vertex
  buffer holds one vertex per distinct triple, in the order the triples were first
  seen; and every index leads back to its corner's triple and to the vertex made of
  that corner's position and normal, exactly, and of its texture coordinate with u
  kept and v stored as 1 minus the source v (line 484), not the source v itself.
\<close>

theorem dedup_same_slot_and_roundtrip:
  fixes indices :: "int3 list"
  assumes "length indices < 2 ^ 31"
    and "dedup positions texcoords normals indices = Inr (m, v, i)"
  shows "length i = length indices
       \<and> (\<forall>j<length indices. \<forall>k<length indices.
             (i ! j = i ! k) = (indices ! j = indices ! k))
       \<and> map Inr v = map (make_vertex positions texcoords normals) (first_seen indices)
       \<and> length v = card (set indices)
       \<and> (\<forall>k<length indices.
             unat (i ! k) < length v
           \<and> first_seen indices ! unat (i ! k) = indices ! k
           \<and> make_vertex positions texcoords normals (indices ! k) = Inr (v ! unat (i ! k))
           \<and> SimpleVertex.position (v ! unat (i ! k)) = positions ! unat (p (indices ! k) - 1)
           \<and> SimpleVertex.normal (v ! unat (i ! k)) = normals ! unat (n (indices ! k) - 1)
           \<and> SimpleVertex.texcoord (v ! unat (i ! k))
               = (texcoords ! unat (t (indices ! k)))
                   \<lparr> y := 1 - y (texcoords ! unat (t (indices ! k))) \<rparr>)"
proof -
  let ?keys = "first_seen indices"
  have "dedup_inv positions texcoords normals indices (m, v, i)"
    using assms by (rule dedup_final_inv)
  then have verts: "map Inr v = map (make_vertex positions texcoords normals) ?keys"
    and li: "length i = length indices"
    and bk: "\<And>j. j < length indices \<Longrightarrow>
           unat (i ! j) < length ?keys \<and> ?keys ! unat (i ! j) = indices ! j"
    by (auto simp: dedup_inv_def)
  have lv: "length v = length ?keys" using verts by (metis length_map)
  have slot: "(i ! j = i ! k) = (indices ! j = indices ! k)"
    if "j < length indices" "k < length indices" for j k
  proof
    assume "i ! j = i ! k"
    then show "indices ! j = indices ! k" using bk [OF that(1)] bk [OF that(2)] by metis
  next
    assume e: "indices ! j = indices ! k"
    have aj: "unat (i ! j) < length ?keys" and ak: "unat (i ! k) < length ?keys"
      using bk [OF that(1)] bk [OF that(2)] by auto
    have "?keys ! unat (i ! j) = ?keys ! unat (i ! k)"
      using bk [OF that(1)] bk [OF that(2)] e by simp
    then have "unat (i ! j) = unat (i ! k)"
      using nth_eq_iff_index_eq [OF distinct_first_seen aj ak] by simp
    then show "i ! j = i ! k" by (rule unsigned_word_eqI)
  qed
  have res: "make_vertex positions texcoords normals (indices ! k) = Inr (v ! unat (i ! k))"
    if "k < length indices" for k
  proof -
    have a: "unat (i ! k) < length ?keys" and b: "?keys ! unat (i ! k) = indices ! k"
      using bk [OF that] by auto
    have "map Inr v ! unat (i ! k)
        = map (make_vertex positions texcoords normals) ?keys ! unat (i ! k)"
      using verts by simp
    then show ?thesis using a b lv by simp
  qed
  show ?thesis
    using li slot verts lv bk res make_vertex_fields [OF res]
    by (simp add: length_first_seen)
qed

theorem dedup_same_slot_and_roundtrip_witness:
  "length ex_corners < 2 ^ 31
   \<and> dedup ex_positions ex_texcoords ex_normals ex_corners
       = Inr ([(\<lparr>p = 1, t = 1, n = 1\<rparr>, 0), (\<lparr>p = 2, t = 2, n = 1\<rparr>, 1),
               (\<lparr>p = 3, t = 0, n = 1\<rparr>, 2), (\<lparr>p = 2, t = 1, n = 1\<rparr>, 3)],
              [\<lparr>SimpleVertex.position = Vec3 0 0 0, normal = Vec3 0 0 1, texcoord = \<lparr>x = 0, y = 1\<rparr>\<rparr>,
               \<lparr>SimpleVertex.position = Vec3 1 0 0, normal = Vec3 0 0 1, texcoord = \<lparr>x = 1, y = 3/4\<rparr>\<rparr>,
               \<lparr>SimpleVertex.position = Vec3 0 1 0, normal = Vec3 0 0 1, texcoord = \<lparr>x = 1/2, y = 1/2\<rparr>\<rparr>,
               \<lparr>SimpleVertex.position = Vec3 1 0 0, normal = Vec3 0 0 1, texcoord = \<lparr>x = 0, y = 1\<rparr>\<rparr>],
              [0, 1, 2, 0, 2, 3])
   \<and> length [0, 1, 2, 0, 2, 3 :: 32 word] = length ex_corners
   \<and> card (set ex_corners) = 4
   \<and> ex_corners ! 0 = ex_corners ! 3 \<and> ex_corners ! 1 \<noteq> ex_corners ! 5"
proof -
  have len: "length ex_corners < 2 ^ 31" by (simp add: ex_corners_def)
  show ?thesis
    using dedup_same_slot_and_roundtrip [OF len ex_corners_run] len ex_corners_run
    by (simp add: ex_corners_def)
qed

theorem dedup_texcoord_not_reproduced_counterexample:
  "dedup ex_positions ex_texcoords ex_normals ex_corners
     = Inr ([(\<lparr>p = 1, t = 1, n = 1\<rparr>, 0), (\<lparr>p = 2, t = 2, n = 1\<rparr>, 1),
             (\<lparr>p = 3, t = 0, n = 1\<rparr>, 2), (\<lparr>p = 2, t = 1, n = 1\<rparr>, 3)],
            [\<lparr>SimpleVertex.position = Vec3 0 0 0, normal = Vec3 0 0 1, texcoord = \<lparr>x = 0, y = 1\<rparr>\<rparr>,
             \<lparr>SimpleVertex.position = Vec3 1 0 0, normal = Vec3 0 0 1, texcoord = \<lparr>x = 1, y = 3/4\<rparr>\<rparr>,
             \<lparr>SimpleVertex.position = Vec3 0 1 0, normal = Vec3 0 0 1, texcoord = \<lparr>x = 1/2, y = 1/2\<rparr>\<rparr>,
             \<lparr>SimpleVertex.position = Vec3 1 0 0, normal = Vec3 0 0 1, texcoord = \<lparr>x = 0, y = 1\<rparr>\<rparr>],
            [0, 1, 2, 0, 2, 3])
   \<and> ex_corners ! 0 = \<lparr>p = 1, t = 1, n = 1\<rparr>
   \<and> ex_texcoords ! unat (t (ex_corners ! 0)) = \<lparr>x = 0, y = 0\<rparr>
   \<and> SimpleVertex.texcoord
        ([\<lparr>SimpleVertex.position = Vec3 0 0 0, normal = Vec3 0 0 1, texcoord = \<lparr>x = 0, y = 1\<rparr>\<rparr>,
          \<lparr>SimpleVertex.position = Vec3 1 0 0, normal = Vec3 0 0 1, texcoord = \<lparr>x = 1, y = 3/4\<rparr>\<rparr>,
          \<lparr>SimpleVertex.position = Vec3 0 1 0, normal = Vec3 0 0 1, texcoord = \<lparr>x = 1/2, y = 1/2\<rparr>\<rparr>,
          \<lparr>SimpleVertex.position = Vec3 1 0 0, normal = Vec3 0 0 1, texcoord = \<lparr>x = 0, y = 1 :: real\<rparr>\<rparr>]
         ! unat ([0, 1, 2, 0, 2, 3 :: 32 word] ! 0))
       \<noteq> ex_texcoords ! unat (t (ex_corners ! 0))"
  using ex_corners_run by (simp add: ex_corners_def ex_texcoords_def)

text \<open>
  Claim C6. The texture coordinates handed to the deduplicator are the default
  \<open>(0.5, 0.5)\<close> that \<open>_load_obj\<close> pushes first, followed by the declared ones. The
  vertex in slot \<open>k\<close> was emitted for the \<open>k\<close>-th distinct corner: its texture
  coordinate comes from the default when the corner's \<open>t\<close> is 0 and from the \<open>t\<close>-th
  declared one otherwise; u is kept and the stored v is 1 minus the source v.
\<close>

theorem dedup_texcoord_default_and_flip:
  fixes indices :: "int3 list"
    and declared :: "('f::{numeral,inverse,minus}) Vec2 list"
  assumes "length indices < 2 ^ 31"
    and "dedup positions (tex # declared) normals indices = Inr (m, v, i)"
    and "k < length v"
  shows "(t (first_seen indices ! k) \<noteq> 0 \<longrightarrow>
            unat (t (first_seen indices ! k)) - 1 < length declared)
       \<and> x (SimpleVertex.texcoord (v ! k))
           = x (if t (first_seen indices ! k) = 0 then \<lparr>x = 0.5, y = 0.5\<rparr>
                else declared ! (unat (t (first_seen indices ! k)) - 1))
       \<and> y (SimpleVertex.texcoord (v ! k))
           = 1 - y (if t (first_seen indices ! k) = 0 then \<lparr>x = 0.5, y = 0.5\<rparr>
                    else declared ! (unat (t (first_seen indices ! k)) - 1))"
proof -
  let ?c = "first_seen indices ! k"
  have "dedup_inv positions (tex # declared) normals indices (m, v, i)"
    using assms(1,2) by (rule dedup_final_inv)
  then have verts: "map Inr v = map (make_vertex positions (tex # declared) normals) (first_seen indices)"
    by (simp add: dedup_inv_def)
  have lv: "length v = length (first_seen indices)" using verts by (metis length_map)
  have "map Inr v ! k = map (make_vertex positions (tex # declared) normals) (first_seen indices) ! k"
    using verts by simp
  then have mk: "make_vertex positions (tex # declared) normals ?c = Inr (v ! k)"
    using assms(3) lv by simp
  have rng: "unat (t ?c) < length (tex # declared)"
    using mk by (auto simp: make_vertex_def Let_def split: if_splits)
  have tc: "SimpleVertex.texcoord (v ! k)
      = ((tex # declared) ! unat (t ?c)) \<lparr> y := 1 - y ((tex # declared) ! unat (t ?c)) \<rparr>"
    using make_vertex_fields [OF mk] by simp
  show ?thesis
  proof (cases "t ?c = 0")
    case True
    then show ?thesis using tc by (simp add: tex_def)
  next
    case False
    then have "unat (t ?c) \<noteq> 0" by (simp add: unat_eq_0)
    then obtain j where j: "unat (t ?c) = Suc j" by (cases "unat (t ?c)") auto
    then show ?thesis using tc rng False by simp
  qed
qed

theorem dedup_texcoord_default_and_flip_witness:
  "length ex_corners < 2 ^ 31
   \<and> dedup ex_positions (tex # [\<lparr>x = 0, y = 0\<rparr>, \<lparr>x = 1, y = 1/4\<rparr>]) ex_normals ex_corners
       = Inr ([(\<lparr>p = 1, t = 1, n = 1\<rparr>, 0), (\<lparr>p = 2, t = 2, n = 1\<rparr>, 1),
               (\<lparr>p = 3, t = 0, n = 1\<rparr>, 2), (\<lparr>p = 2, t = 1, n = 1\<rparr>, 3)],
              [\<lparr>SimpleVertex.position = Vec3 0 0 0, normal = Vec3 0 0 1, texcoord = \<lparr>x = 0, y = 1\<rparr>\<rparr>,
               \<lparr>SimpleVertex.position = Vec3 1 0 0, normal = Vec3 0 0 1, texcoord = \<lparr>x = 1, y = 3/4\<rparr>\<rparr>,
               \<lparr>SimpleVertex.position = Vec3 0 1 0, normal = Vec3 0 0 1, texcoord = \<lparr>x = 1/2, y = 1/2\<rparr>\<rparr>,
               \<lparr>SimpleVertex.position = Vec3 1 0 0, normal = Vec3 0 0 1, texcoord = \<lparr>x = 0, y = 1\<rparr>\<rparr>],
              [0, 1, 2, 0, 2, 3])
   \<and> t (first_seen ex_corners ! 2) = 0
   \<and> y (\<lparr>x = 1/2, y = 1/2 :: real\<rparr>) = 1 - 0.5
   \<and> t (first_seen ex_corners ! 1) = 2
   \<and> y (\<lparr>x = 1, y = 3/4 :: real\<rparr>) = 1 - y ([\<lparr>x = 0, y = 0\<rparr>, \<lparr>x = 1, y = 1/4 :: real\<rparr>] ! (2 - 1))"
proof -
  have len: "length ex_corners < 2 ^ 31" by (simp add: ex_corners_def)
  note run = ex_corners_run [unfolded ex_texcoords_tex]
  show ?thesis
    using dedup_texcoord_default_and_flip [OF len run, of 2]
      dedup_texcoord_default_and_flip [OF len run, of 1] len run
    by (simp add: ex_corners_first_seen)
qed

section \<open>The tangent-space calculator\<close>

lemma find_snoc:
  "find P (xs @ [a]) = (case find P xs of Some b \<Rightarrow> Some b | None \<Rightarrow> if P a then Some a else None)"
  by (induction xs) auto

lemma last_triangle_of_Cons:
  "last_triangle_of k (tri # tris) =
     (case last_triangle_of k tris of
        Some u \<Rightarrow> Some u
      | None \<Rightarrow> if uses_vertex k tri then Some tri else None)"
  by (simp add: last_triangle_of_def find_snoc)

lemma triangle_basis_cong:
  "Vertex.position u0 = Vertex.position v0 \<Longrightarrow> Vertex.texcoord u0 = Vertex.texcoord v0 \<Longrightarrow>
   Vertex.position u1 = Vertex.position v1 \<Longrightarrow> Vertex.texcoord u1 = Vertex.texcoord v1 \<Longrightarrow>
   Vertex.position u2 = Vertex.position v2 \<Longrightarrow> Vertex.texcoord u2 = Vertex.texcoord v2 \<Longrightarrow>
   triangle_basis u0 u1 u2 = triangle_basis v0 v1 v2"
  by (simp add: triangle_basis_def)

lemma tangent_step_effect:
  assumes "tangent_step ibuf ii vs = Inr vs'"
  shows "\<exists>i0 i1 i2.
      read_index ibuf ii = Inr i0 \<and> read_index ibuf (ii + 1) = Inr i1
    \<and> read_index ibuf (ii + 2) = Inr i2
    \<and> unat i0 < length vs \<and> unat i1 < length vs \<and> unat i2 < length vs
    \<and> length vs' = length vs
    \<and> (\<forall>k<length vs. same_attributes (vs' ! k) (vs ! k)
          \<and> (if uses_vertex k (unat i0, unat i1, unat i2)
               then tangent (vs' ! k) = fst (triangle_basis (vs ! unat i0) (vs ! unat i1) (vs ! unat i2))
                  \<and> bitangent (vs' ! k) = snd (triangle_basis (vs ! unat i0) (vs ! unat i1) (vs ! unat i2))
               else tangent (vs' ! k) = tangent (vs ! k) \<and> bitangent (vs' ! k) = bitangent (vs ! k)))"
proof -
  from assms obtain i0 i1 i2 where r:
    "read_index ibuf ii = Inr i0" "read_index ibuf (ii + 1) = Inr i1"
    "read_index ibuf (ii + 2) = Inr i2"
    and b: "unat i0 < length vs" "unat i1 < length vs" "unat i2 < length vs"
    by (auto simp: tangent_step_def split: if_splits sum.splits)
  from assms r b have vs': "vs' =
    (let v0 = unat i0; v1 = unat i1; v2 = unat i2;
               tb = triangle_basis (vs ! v0) (vs ! v1) (vs ! v2);
               nv = vs;
               nv = nv[v0 := (nv ! v0) \<lparr> bitangent := snd tb \<rparr>];
               nv = nv[v1 := (nv ! v1) \<lparr> bitangent := snd tb \<rparr>];
               nv = nv[v2 := (nv ! v2) \<lparr> bitangent := snd tb \<rparr>];
               nv = nv[v0 := (nv ! v0) \<lparr> tangent := fst tb \<rparr>];
               nv = nv[v1 := (nv ! v1) \<lparr> tangent := fst tb \<rparr>];
               nv = nv[v2 := (nv ! v2) \<lparr> tangent := fst tb \<rparr>]
           in nv)"
    by (auto simp: tangent_step_def Let_def split: if_splits)
  have "length vs' = length vs" by (simp add: vs' Let_def)
  moreover have "same_attributes (vs' ! k) (vs ! k)" if "k < length vs" for k
    using that b by (simp add: vs' Let_def same_attributes_def nth_list_update)
  moreover have "tangent (vs' ! k) = fst (triangle_basis (vs ! unat i0) (vs ! unat i1) (vs ! unat i2))
     \<and> bitangent (vs' ! k) = snd (triangle_basis (vs ! unat i0) (vs ! unat i1) (vs ! unat i2))"
    if "k < length vs" "uses_vertex k (unat i0, unat i1, unat i2)" for k
    using that b by (auto simp: vs' Let_def uses_vertex_def nth_list_update)
  moreover have "tangent (vs' ! k) = tangent (vs ! k) \<and> bitangent (vs' ! k) = bitangent (vs ! k)"
    if "k < length vs" "\<not> uses_vertex k (unat i0, unat i1, unat i2)" for k
    using that b by (auto simp: vs' Let_def uses_vertex_def nth_list_update)
  ultimately show ?thesis using r b by auto
qed

lemma same_attributes_trans:
  "same_attributes u v \<Longrightarrow> same_attributes v w \<Longrightarrow> same_attributes u w"
  by (simp add: same_attributes_def)

lemma triangle_basis_same:
  "same_attributes u0 v0 \<Longrightarrow> same_attributes u1 v1 \<Longrightarrow> same_attributes u2 v2 \<Longrightarrow>
   triangle_basis u0 u1 u2 = triangle_basis v0 v1 v2"
  by (rule triangle_basis_cong) (simp_all add: same_attributes_def)

lemma find_Some_mem: "find P xs = Some a \<Longrightarrow> a \<in> set xs"
  by (induction xs) (auto split: if_splits)

lemma last_triangle_of_mem:
  "last_triangle_of k tris = Some tri \<Longrightarrow> tri \<in> set tris"
  using find_Some_mem [of "uses_vertex k" "rev tris" tri] by (simp add: last_triangle_of_def)

lemma tangent_loop_effect:
  "tangent_loop ibuf num ii vs = Inr out \<Longrightarrow>
     length out = length vs
   \<and> (\<forall>tri \<in> set (triangles_from ibuf num ii). in_range (length vs) tri)
   \<and> (\<forall>k<length vs. same_attributes (out ! k) (vs ! k)
         \<and> carries vs (last_triangle_of k (triangles_from ibuf num ii)) (vs ! k) (out ! k))"
proof (induction ibuf num ii vs rule: tangent_loop.induct)
  case (1 ibuf num ii vs)
  show ?case
  proof (cases "ii < num")
    case False
    with "1.prems" show ?thesis
      by (simp add: tangent_loop.simps [of ibuf num ii] triangles_from.simps [of ibuf num ii]
          last_triangle_of_def carries_def same_attributes_def)
  next
    case True
    with "1.prems" obtain vs1 where s1: "tangent_step ibuf ii vs = Inr vs1"
      and r1: "tangent_loop ibuf num (ii + 3) vs1 = Inr out"
      by (auto simp: tangent_loop.simps [of ibuf num ii] split: sum.splits)
    from tangent_step_effect [OF s1] obtain i0 i1 i2 where
      rd: "read_index ibuf ii = Inr i0" "read_index ibuf (ii + 1) = Inr i1"
          "read_index ibuf (ii + 2) = Inr i2"
      and bd: "unat i0 < length vs" "unat i1 < length vs" "unat i2 < length vs"
      and l1: "length vs1 = length vs"
      and eff: "\<forall>k<length vs. same_attributes (vs1 ! k) (vs ! k)
          \<and> (if uses_vertex k (unat i0, unat i1, unat i2)
               then tangent (vs1 ! k) = fst (triangle_basis (vs ! unat i0) (vs ! unat i1) (vs ! unat i2))
                  \<and> bitangent (vs1 ! k) = snd (triangle_basis (vs ! unat i0) (vs ! unat i1) (vs ! unat i2))
               else tangent (vs1 ! k) = tangent (vs ! k) \<and> bitangent (vs1 ! k) = bitangent (vs ! k))"
      by blast
    have sa: "same_attributes (vs1 ! k) (vs ! k)" if "k < length vs" for k
      using eff that by blast
    have hit: "tangent (vs1 ! k) = fst (triangle_basis (vs ! unat i0) (vs ! unat i1) (vs ! unat i2))
       \<and> bitangent (vs1 ! k) = snd (triangle_basis (vs ! unat i0) (vs ! unat i1) (vs ! unat i2))"
      if "k < length vs" "uses_vertex k (unat i0, unat i1, unat i2)" for k
      using eff that by presburger
    have miss: "tangent (vs1 ! k) = tangent (vs ! k) \<and> bitangent (vs1 ! k) = bitangent (vs ! k)"
      if "k < length vs" "\<not> uses_vertex k (unat i0, unat i1, unat i2)" for k
      using eff that by presburger
    let ?rest = "triangles_from ibuf num (ii + 3)"
    let ?tri = "(unat i0, unat i1, unat i2)"
    have tf: "triangles_from ibuf num ii = ?tri # ?rest"
      using True rd by (simp add: triangles_from.simps [of ibuf num ii])
    from "1.IH" [OF True s1 r1] l1
    have lo: "length out = length vs"
      and rng: "\<And>tri. tri \<in> set ?rest \<Longrightarrow> in_range (length vs) tri"
      and ih: "\<And>k. k < length vs \<Longrightarrow> same_attributes (out ! k) (vs1 ! k)
           \<and> carries vs1 (last_triangle_of k ?rest) (vs1 ! k) (out ! k)"
      by auto
    have "carries vs (last_triangle_of k (?tri # ?rest)) (vs ! k) (out ! k)"
      if k: "k < length vs" for k
    proof (cases "last_triangle_of k ?rest")
      case None
      then show ?thesis
        using ih [OF k] hit [OF k] miss [OF k]
        by (auto simp: last_triangle_of_Cons carries_def)
    next
      case (Some u)
      obtain a b c where u: "u = (a, b, c)" by (cases u) auto
      have "in_range (length vs) u" using Some rng last_triangle_of_mem by blast
      then have abc: "a < length vs" "b < length vs" "c < length vs"
        by (auto simp: in_range_def u)
      have "triangle_basis (vs1 ! a) (vs1 ! b) (vs1 ! c) = triangle_basis (vs ! a) (vs ! b) (vs ! c)"
        using abc sa by (intro triangle_basis_same) auto
      then show ?thesis
        using ih [OF k] Some u by (auto simp: last_triangle_of_Cons carries_def)
    qed
    moreover have "same_attributes (out ! k) (vs ! k)" if k: "k < length vs" for k
      using ih [OF k] sa [OF k] same_attributes_trans by blast
    moreover have "in_range (length vs) ?tri" using bd by (simp add: in_range_def)
    ultimately show ?thesis
      using lo rng by (simp add: tf)
  qed
qed

lemma copy_vertices_nth:
  "k < num \<Longrightarrow> copy_vertices fresh vs num ! k =
     (fresh k) \<lparr> Vertex.position := SimpleVertex.position (vs ! k),
                   Vertex.normal := SimpleVertex.normal (vs ! k),
                   Vertex.texcoord := SimpleVertex.texcoord (vs ! k) \<rparr>"
  by (simp add: copy_vertices_def)

text \<open>
  Claim C7. The triangles are taken from the index buffer in order, three indices at a
  time. After the pass every vertex keeps its position, normal and texture coordinate,
  and its tangent and bitangent are those computed for the last triangle in that order
  that refers to it (from the positions and texture coordinates alone); nothing is
  summed or averaged. A vertex that no triangle refers to keeps what the fresh array
  held.
\<close>

theorem calculate_tangets_last_triangle_wins:
  fixes vertices :: "('f::{one,minus,times,inverse}) SimpleVertex list"
    and indices :: index_buffer
  assumes "calculate_tangets fresh vertices num_vertices indices num_indices = Inr out"
  shows "length out = nat (sint num_vertices)
       \<and> (\<forall>k<length out.
             Vertex.position (out ! k) = SimpleVertex.position (vertices ! k)
           \<and> Vertex.normal (out ! k) = SimpleVertex.normal (vertices ! k)
           \<and> Vertex.texcoord (out ! k) = SimpleVertex.texcoord (vertices ! k)
           \<and> (case last_triangle_of k (triangles_from indices (nat (sint num_indices)) 0) of
                 None \<Rightarrow> tangent (out ! k) = tangent (fresh k)
                        \<and> bitangent (out ! k) = bitangent (fresh k)
               | Some (a, b, c) \<Rightarrow>
                   tangent (out ! k) =
                     fst (triangle_basis
                           (copy_vertices fresh vertices (nat (sint num_vertices)) ! a)
                           (copy_vertices fresh vertices (nat (sint num_vertices)) ! b)
                           (copy_vertices fresh vertices (nat (sint num_vertices)) ! c))
                 \<and> bitangent (out ! k) =
                     snd (triangle_basis
                           (copy_vertices fresh vertices (nat (sint num_vertices)) ! a)
                           (copy_vertices fresh vertices (nat (sint num_vertices)) ! b)
                           (copy_vertices fresh vertices (nat (sint num_vertices)) ! c))))"
proof -
  let ?num = "nat (sint num_vertices)"
  let ?init = "copy_vertices fresh vertices ?num"
  let ?tris = "triangles_from indices (nat (sint num_indices)) 0"
  have loop: "tangent_loop indices (nat (sint num_indices)) 0 ?init = Inr out"
    using assms by (simp add: calculate_tangets_def split: if_splits)
  have li: "length ?init = ?num" by (simp add: copy_vertices_def)
  from tangent_loop_effect [OF loop] li
  have lo: "length out = ?num"
    and eff: "\<And>k. k < ?num \<Longrightarrow> same_attributes (out ! k) (?init ! k)
           \<and> carries ?init (last_triangle_of k ?tris) (?init ! k) (out ! k)"
    by auto
  have "Vertex.position (out ! k) = SimpleVertex.position (vertices ! k)
      \<and> Vertex.normal (out ! k) = SimpleVertex.normal (vertices ! k)
      \<and> Vertex.texcoord (out ! k) = SimpleVertex.texcoord (vertices ! k)"
    if "k < ?num" for k
    using eff [OF that] that by (simp add: same_attributes_def copy_vertices_nth)
  moreover have "case last_triangle_of k ?tris of
        None \<Rightarrow> tangent (out ! k) = tangent (fresh k) \<and> bitangent (out ! k) = bitangent (fresh k)
      | Some (a, b, c) \<Rightarrow>
          tangent (out ! k) = fst (triangle_basis (?init ! a) (?init ! b) (?init ! c))
        \<and> bitangent (out ! k) = snd (triangle_basis (?init ! a) (?init ! b) (?init ! c))"
    if "k < ?num" for k
    using eff [OF that] that
    by (auto simp: carries_def copy_vertices_nth split: option.splits)
  ultimately show ?thesis using lo by simp
qed

lemma ex_quad_run:
  "calculate_tangets ex_fresh ex_quad 4 (U32 [0, 1, 2, 0, 2, 3]) 6 = Inr
    [\<lparr>Vertex.position = Vec3 0 0 0, normal = Vec3 0 0 1, tangent = Vec3 1 (1 / 2) 0,
        bitangent = Vec3 0 (1 / 2) 0, texcoord = \<lparr>x = 0, y = 0\<rparr>\<rparr>,
     \<lparr>Vertex.position = Vec3 1 0 0, normal = Vec3 0 0 1, tangent = Vec3 1 0 0,
        bitangent = Vec3 0 1 0, texcoord = \<lparr>x = 1, y = 0\<rparr>\<rparr>,
     \<lparr>Vertex.position = Vec3 1 1 0, normal = Vec3 0 0 1, tangent = Vec3 1 (1 / 2) 0,
        bitangent = Vec3 0 (1 / 2) 0, texcoord = \<lparr>x = 1, y = 1\<rparr>\<rparr>,
     \<lparr>Vertex.position = Vec3 0 1 0, normal = Vec3 0 0 1, tangent = Vec3 1 (1 / 2) 0,
        bitangent = Vec3 0 (1 / 2) 0, texcoord = \<lparr>x = 0, y = 2\<rparr>\<rparr>]"
  by code_simp

lemma ex_quad_last_triangle:
  "last_triangle_of 0 (triangles_from (U32 [0, 1, 2, 0, 2, 3]) (nat (sint (6 :: 32 word))) 0)
     = Some (0, 2, 3)"
  by code_simp

theorem calculate_tangets_last_triangle_wins_witness:
  "calculate_tangets ex_fresh ex_quad 4 (U32 [0, 1, 2, 0, 2, 3]) 6 = Inr
    [\<lparr>Vertex.position = Vec3 0 0 0, normal = Vec3 0 0 1, tangent = Vec3 1 (1 / 2) 0,
        bitangent = Vec3 0 (1 / 2) 0, texcoord = \<lparr>x = 0, y = 0\<rparr>\<rparr>,
     \<lparr>Vertex.position = Vec3 1 0 0, normal = Vec3 0 0 1, tangent = Vec3 1 0 0,
        bitangent = Vec3 0 1 0, texcoord = \<lparr>x = 1, y = 0\<rparr>\<rparr>,
     \<lparr>Vertex.position = Vec3 1 1 0, normal = Vec3 0 0 1, tangent = Vec3 1 (1 / 2) 0,
        bitangent = Vec3 0 (1 / 2) 0, texcoord = \<lparr>x = 1, y = 1\<rparr>\<rparr>,
     \<lparr>Vertex.position = Vec3 0 1 0, normal = Vec3 0 0 1, tangent = Vec3 1 (1 / 2) 0,
        bitangent = Vec3 0 (1 / 2) 0, texcoord = \<lparr>x = 0, y = 2\<rparr>\<rparr>]
   \<and> last_triangle_of 0 (triangles_from (U32 [0, 1, 2, 0, 2, 3]) (nat (sint (6 :: 32 word))) 0)
       = Some (0, 2, 3)
   \<and> fst (triangle_basis (copy_vertices ex_fresh ex_quad (nat (sint (4 :: 32 word))) ! 0)
                           (copy_vertices ex_fresh ex_quad (nat (sint (4 :: 32 word))) ! 2)
                           (copy_vertices ex_fresh ex_quad (nat (sint (4 :: 32 word))) ! 3))
       = Vec3 1 (1 / 2) 0
   \<and> snd (triangle_basis (copy_vertices ex_fresh ex_quad (nat (sint (4 :: 32 word))) ! 0)
                           (copy_vertices ex_fresh ex_quad (nat (sint (4 :: 32 word))) ! 2)
                           (copy_vertices ex_fresh ex_quad (nat (sint (4 :: 32 word))) ! 3))
       = Vec3 0 (1 / 2) 0"
  using calculate_tangets_last_triangle_wins [OF ex_quad_run, THEN conjunct2, rule_format, of 0]
    ex_quad_run ex_quad_last_triangle
  by simp


section \<open>The material library parser\<close>

lemma for_each_append:
  "for_each body (xs @ ys) s =
     (case for_each body xs s of Inl e \<Rightarrow> Inl e | Inr s' \<Rightarrow> for_each body ys s')"
  by (induction xs arbitrary: s) (auto split: sum.splits)


lemma update_at_Inr:
  "update_at w xs k f = Inr ys \<Longrightarrow>
     0 \<le> k \<and> k < int (length xs) \<and> nat k < length xs \<and> ys = xs[nat k := f (xs ! nat k)]"
  by (auto simp: update_at_def split: if_splits)

lemma mtl_count_body_effect:
  "mtl_count_body r scene = Inr scene' \<Longrightarrow>
     scene' = scene \<lparr> num_materials := num_materials scene
                        + (if mtl_header r = Inr ''newmtl'' then 1 else 0) \<rparr>"
  by (cases r) (auto simp: mtl_count_body_def mtl_header_def split: sum.splits if_splits)

lemma mtl_count_loop:
  "for_each mtl_count_body rs scene = Inr scene' \<Longrightarrow>
     scene' = scene \<lparr> num_materials := num_materials scene + word_of_nat (newmtl_count rs) \<rparr>"
proof (induction rs arbitrary: scene)
  case Nil
  then show ?case by (simp add: newmtl_count_def)
next
  case (Cons r rs)
  from Cons.prems obtain s1 where a: "mtl_count_body r scene = Inr s1"
    and b: "for_each mtl_count_body rs s1 = Inr scene'"
    by (auto split: sum.splits)
  show ?case
    using Cons.IH [OF b] mtl_count_body_effect [OF a]
    by (simp add: newmtl_count_def)
qed

lemma update_at_keeps:
  assumes "update_at w mats k f = Inr mats'"
    and "\<And>m. g (f m) = g m"
  shows "length mats' = length mats \<and> (\<forall>j<length mats. g (mats' ! j) = g (mats ! j))"
  using assms by (auto simp: update_at_def nth_list_update split: if_splits)

lemma mtl_body_newmtl:
  "line_header 64 line = Inr ''newmtl'' \<Longrightarrow>
   mtl_body strtof (this_line, line, next_line) (cm, mats) =
      (case scan_name 64 128 line of Inl e \<Rightarrow> Inl e | Inr (matches, tok) \<Rightarrow>
         case update_at Materials mats (cm + 1)
                (\<lambda>m. m \<lparr> MaterialData.name :=
                             (case tok of Some s \<Rightarrow> s | None \<Rightarrow> MaterialData.name m),
                         specular_power := 16 \<rparr>) of
           Inl e \<Rightarrow> Inl e
         | Inr mats \<Rightarrow> if matches = 2 then Inr (cm + 1, mats) else Inl AssertFailed)"
  by (simp add: mtl_body_def Let_def)

lemma mtl_body_map_Kd:
  "line_header 64 line = Inr ''map_Kd'' \<Longrightarrow>
   mtl_body strtof (this_line, line, next_line) (cm, mats) =
      (case scan_name 64 128 line of Inl e \<Rightarrow> Inl e | Inr (matches, tok) \<Rightarrow>
         case tok of
           None \<Rightarrow> Inl AssertFailed
         | Some s \<Rightarrow>
             (case update_at Materials mats cm (\<lambda>m. m \<lparr> albedo_tex := s \<rparr>) of
                Inl e \<Rightarrow> Inl e
              | Inr mats \<Rightarrow> if matches = 2 then Inr (cm, mats) else Inl AssertFailed))"
  by (simp add: mtl_body_def)

lemma mtl_body_map_bump:
  "line_header 64 line = Inr ''map_bump'' \<Longrightarrow>
   mtl_body strtof (this_line, line, next_line) (cm, mats) =
      (case read_at Materials mats cm of Inl e \<Rightarrow> Inl e | Inr m \<Rightarrow>
         if normal_tex m = [] then
           (case scan_name 64 128 line of Inl e \<Rightarrow> Inl e | Inr (matches, tok) \<Rightarrow>
            case tok of
              None \<Rightarrow> Inl AssertFailed
            | Some s \<Rightarrow>
                (case update_at Materials mats cm (\<lambda>m. m \<lparr> normal_tex := s \<rparr>) of
                   Inl e \<Rightarrow> Inl e
                 | Inr mats \<Rightarrow> if matches = 2 then Inr (cm, mats) else Inl AssertFailed))
         else Inr (cm, mats))"
  by (simp add: mtl_body_def)

lemma mtl_body_Ks:
  "line_header 64 line = Inr ''Ks'' \<Longrightarrow>
   mtl_body strtof (this_line, line, next_line) (cm, mats) =
      (case sscanf strtof line ''%s %f %f %f\<newline>'' of
           [Str_val h, Float_val a, Float_val b, Float_val c] \<Rightarrow>
             (case update_at Materials mats cm (\<lambda>m. m \<lparr> specular_color := Vec3 a b c \<rparr>) of
                Inl e \<Rightarrow> Inl e
              | Inr mats \<Rightarrow> Inr (cm, mats))
         | _ \<Rightarrow> Inl AssertFailed)"
  by (simp add: mtl_body_def)

lemma mtl_body_Ns:
  "line_header 64 line = Inr ''Ns'' \<Longrightarrow>
   mtl_body strtof (this_line, line, next_line) (cm, mats) =
      (case sscanf strtof line ''%s %f\<newline>'' of
           [Str_val h, Float_val a] \<Rightarrow>
             (case update_at Materials mats cm (\<lambda>m. m \<lparr> specular_coefficient := a \<rparr>) of
                Inl e \<Rightarrow> Inl e
              | Inr mats \<Rightarrow> Inr (cm, mats))
         | _ \<Rightarrow> Inl AssertFailed)"
  by (simp add: mtl_body_def)

lemma mtl_body_other:
  "line_header 64 line = Inr header \<Longrightarrow> header \<noteq> ''newmtl'' \<Longrightarrow> header \<noteq> ''map_Kd'' \<Longrightarrow>
   header \<noteq> ''map_bump'' \<Longrightarrow> header \<noteq> ''Ks'' \<Longrightarrow> header \<noteq> ''Ns'' \<Longrightarrow>
   mtl_body strtof (this_line, line, next_line) (cm, mats) = Inr (cm, mats)"
  by (simp add: mtl_body_def)

lemma mtl_body_effect:
  assumes "mtl_body strtof r (cm, mats) = Inr (cm', mats')"
  shows "length mats' = length mats
       \<and> (if mtl_header r = Inr ''newmtl''
          then cm' = cm + 1 \<and> 0 \<le> cm' \<and> cm' < int (length mats)
             \<and> specular_power (mats' ! nat cm') = 16
             \<and> (\<forall>k<length mats. k \<noteq> nat cm' \<longrightarrow> mats' ! k = mats ! k)
          else cm' = cm
             \<and> (\<forall>k<length mats. specular_power (mats' ! k) = specular_power (mats ! k)))"
proof -
  obtain this_line line next_line where r: "r = (this_line, line, next_line)"
    by (cases r) auto
  from assms obtain header where h: "line_header 64 line = Inr header"
    by (auto simp: mtl_body_def r split: sum.splits)
  have mh: "mtl_header r = Inr header" by (simp add: mtl_header_def r h)
  note run = assms [unfolded r]
  consider (newmtl) "header = ''newmtl''" | (kd) "header = ''map_Kd''"
    | (bump) "header = ''map_bump''" | (ks) "header = ''Ks''" | (ns) "header = ''Ns''"
    | (other) "header \<noteq> ''newmtl''" "header \<noteq> ''map_Kd''" "header \<noteq> ''map_bump''"
        "header \<noteq> ''Ks''" "header \<noteq> ''Ns''"
    by blast
  then show ?thesis
  proof cases
    case newmtl
    have hn: "line_header 64 line = Inr ''newmtl''" using h newmtl by simp
    from run [unfolded mtl_body_newmtl [OF hn]]
    have "\<exists>tok. update_at Materials mats (cm + 1)
            (\<lambda>m. m \<lparr> MaterialData.name := (case tok of Some s \<Rightarrow> s | None \<Rightarrow> MaterialData.name m),
                     specular_power := 16 \<rparr>) = Inr mats' \<and> cm' = cm + 1"
      by (auto split: sum.splits prod.splits if_splits)
    then obtain tok where
      u: "update_at Materials mats (cm + 1)
            (\<lambda>m. m \<lparr> MaterialData.name := (case tok of Some s \<Rightarrow> s | None \<Rightarrow> MaterialData.name m),
                     specular_power := 16 \<rparr>) = Inr mats'"
      and res: "cm' = cm + 1"
      by blast
    show ?thesis
      using update_at_Inr [OF u] res by (simp add: mh newmtl nth_list_update)
  next
    case kd
    have hh: "line_header 64 line = Inr ''map_Kd''" using h kd by simp
    from run [unfolded mtl_body_map_Kd [OF hh]]
    have "\<exists>s. update_at Materials mats cm (\<lambda>m. m \<lparr> albedo_tex := s \<rparr>) = Inr mats' \<and> cm' = cm"
      by (auto split: sum.splits prod.splits if_splits option.splits)
    then obtain s where
      u: "update_at Materials mats cm (\<lambda>m. m \<lparr> albedo_tex := s \<rparr>) = Inr mats'" and res: "cm' = cm"
      by blast
    show ?thesis
      using update_at_keeps [OF u, where g = specular_power] res by (simp add: mh kd)
  next
    case bump
    have hh: "line_header 64 line = Inr ''map_bump''" using h bump by simp
    from run [unfolded mtl_body_map_bump [OF hh]]
    have "cm' = cm \<and> (mats' = mats
        \<or> (\<exists>s. update_at Materials mats cm (\<lambda>m. m \<lparr> normal_tex := s \<rparr>) = Inr mats'))"
      by (auto split: sum.splits prod.splits if_splits option.splits)
    then consider (same) "cm' = cm" "mats' = mats"
      | (upd) s where "cm' = cm" "update_at Materials mats cm (\<lambda>m. m \<lparr> normal_tex := s \<rparr>) = Inr mats'"
      by blast
    then show ?thesis
    proof cases
      case same
      then show ?thesis by (simp add: mh bump)
    next
      case upd
      show ?thesis
        using update_at_keeps [OF upd(2), where g = specular_power] upd(1) by (simp add: mh bump)
    qed
  next
    case ks
    have hh: "line_header 64 line = Inr ''Ks''" using h ks by simp
    from run [unfolded mtl_body_Ks [OF hh]]
    have "\<exists>a b c. update_at Materials mats cm (\<lambda>m. m \<lparr> specular_color := Vec3 a b c \<rparr>) = Inr mats'
        \<and> cm' = cm"
      by (auto split: sum.splits list.splits scanned.splits)
    then obtain a b c where
      u: "update_at Materials mats cm (\<lambda>m. m \<lparr> specular_color := Vec3 a b c \<rparr>) = Inr mats'"
      and res: "cm' = cm"
      by blast
    show ?thesis
      using update_at_keeps [OF u, where g = specular_power] res by (simp add: mh ks)
  next
    case ns
    have hh: "line_header 64 line = Inr ''Ns''" using h ns by simp
    from run [unfolded mtl_body_Ns [OF hh]]
    have "\<exists>a. update_at Materials mats cm (\<lambda>m. m \<lparr> specular_coefficient := a \<rparr>) = Inr mats'
        \<and> cm' = cm"
      by (auto split: sum.splits list.splits scanned.splits)
    then obtain a where
      u: "update_at Materials mats cm (\<lambda>m. m \<lparr> specular_coefficient := a \<rparr>) = Inr mats'"
      and res: "cm' = cm"
      by blast
    show ?thesis
      using update_at_keeps [OF u, where g = specular_power] res by (simp add: mh ns)
  next
    case other
    with run show ?thesis
      by (auto simp: mtl_body_other [OF h] mh)
  qed
qed

lemma mtl_loop_effect:
  "for_each (mtl_body strtof) rs (cm, mats) = Inr (cm', mats') \<Longrightarrow>
     length mats' = length mats
   \<and> cm' = cm + int (newmtl_count rs)
   \<and> (0 < newmtl_count rs \<longrightarrow> 0 \<le> cm + 1 \<and> cm' < int (length mats))
   \<and> (\<forall>k<length mats.
         if cm < int k \<and> int k \<le> cm' then specular_power (mats' ! k) = 16
         else specular_power (mats' ! k) = specular_power (mats ! k))"
proof (induction rs arbitrary: cm mats)
  case Nil
  then show ?case by (auto simp: newmtl_count_def)
next
  case (Cons r rs)
  from Cons.prems obtain cm1 mats1 where
    a: "mtl_body strtof r (cm, mats) = Inr (cm1, mats1)"
    and b: "for_each (mtl_body strtof) rs (cm1, mats1) = Inr (cm', mats')"
    by (auto split: sum.splits)
  note ih = Cons.IH [OF b]
  note st = mtl_body_effect [OF a]
  show ?case
  proof (cases "mtl_header r = Inr ''newmtl''")
    case True
    have c: "newmtl_count (r # rs) = Suc (newmtl_count rs)"
      using True by (simp add: newmtl_count_def)
    from st True have s1: "length mats1 = length mats" "cm1 = cm + 1" "0 \<le> cm1"
      "cm1 < int (length mats)" "specular_power (mats1 ! nat cm1) = 16"
      "\<And>k. k < length mats \<Longrightarrow> k \<noteq> nat cm1 \<Longrightarrow> mats1 ! k = mats ! k"
      by auto
    from ih have i1: "length mats' = length mats1" "cm' = cm1 + int (newmtl_count rs)"
      "0 < newmtl_count rs \<Longrightarrow> cm' < int (length mats1)"
      "\<And>k. k < length mats1 \<Longrightarrow>
         (if cm1 < int k \<and> int k \<le> cm' then specular_power (mats' ! k) = 16
          else specular_power (mats' ! k) = specular_power (mats1 ! k))"
      by auto
    have top: "cm' < int (length mats)"
      using i1(2,3) s1 by (cases "newmtl_count rs") auto
    have "(if cm < int k \<and> int k \<le> cm' then specular_power (mats' ! k) = 16
           else specular_power (mats' ! k) = specular_power (mats ! k))"
      if k: "k < length mats" for k
    proof (cases "k = nat cm1")
      case True
      then have "specular_power (mats' ! k) = 16"
        using i1(4) [of k] k s1 by auto
      moreover have "cm < int k \<and> int k \<le> cm'" using True s1 i1(2) by auto
      ultimately show ?thesis by simp
    next
      case False
      then show ?thesis
        using i1(4) [of k] s1(6) [of k] k s1(1,2,3) by auto
    qed
    then show ?thesis
      using s1 i1 top c by auto
  next
    case False
    have c: "newmtl_count (r # rs) = newmtl_count rs"
      using False by (simp add: newmtl_count_def)
    from st False have s1: "length mats1 = length mats" "cm1 = cm"
      "\<And>k. k < length mats \<Longrightarrow> specular_power (mats1 ! k) = specular_power (mats ! k)"
      by auto
    show ?thesis
      using ih s1 c by auto
  qed
qed

lemma realloc_array_length: "length (realloc_array fresh xs count) = count"
  by (auto simp: realloc_array_def)

lemma realloc_array_old:
  "k < length xs \<Longrightarrow> k < count \<Longrightarrow> realloc_array fresh xs count ! k = xs ! k"
  by (simp add: realloc_array_def nth_append)

lemma sint_nonneg_unat:
  assumes "0 \<le> sint (w :: 32 word)"
  shows "sint w = int (unat w)"
proof -
  let ?u = "uint w"
  have u: "0 \<le> ?u" "?u < 2 ^ 32"
    using uint_lt2p [of w] by simp_all
  have s: "sint w = (?u + 2 ^ 31) mod 2 ^ 32 - 2 ^ 31"
    by (simp add: sint_uint signed_take_bit_eq_take_bit_shift take_bit_eq_mod)
  show ?thesis
  proof (cases "?u < 2 ^ 31")
    case True
    then have "(?u + 2 ^ 31) mod 2 ^ 32 = ?u + 2 ^ 31"
      using u by (intro mod_pos_pos_trivial) auto
    then show ?thesis using s by simp
  next
    case False
    have "?u + 2 ^ 31 = (?u + 2 ^ 31 - 2 ^ 32) + 2 ^ 32"
      by simp
    then have "(?u + 2 ^ 31) mod 2 ^ 32 = ((?u + 2 ^ 31 - 2 ^ 32) + 2 ^ 32) mod 2 ^ 32"
      by (rule arg_cong)
    also have "\<dots> = (?u + 2 ^ 31 - 2 ^ 32) mod 2 ^ 32"
      by (simp only: mod_add_self2)
    also have "\<dots> = ?u + 2 ^ 31 - 2 ^ 32"
      using u False by (intro mod_pos_pos_trivial) auto
    finally have "(?u + 2 ^ 31) mod 2 ^ 32 = ?u + 2 ^ 31 - 2 ^ 32" .
    then have "sint w < 0" using s u by simp
    then show ?thesis using assms by simp
  qed
qed

lemma unat_add_of_nat_le: "unat (a + word_of_nat c :: 32 word) \<le> unat a + c"
proof -
  have "unat (a + word_of_nat c :: 32 word) \<le> unat a + unat (word_of_nat c :: 32 word)"
    by (simp add: unat_word_ariths)
  moreover have "unat (word_of_nat c :: 32 word) \<le> c"
    by (simp add: unat_of_nat)
  ultimately show ?thesis by linarith
qed

lemma load_mtl_file_unfold:
  assumes "load_mtl_file fs strtof fresh filename scene = Inr scene'"
  shows "\<exists>data cm' mats'.
      fs filename = Some data
    \<and> for_each (mtl_body strtof) (scan_lines (Some data))
         (sint (num_materials scene) - 1,
          realloc_array fresh (materials scene)
            (unat (num_materials scene + word_of_nat (newmtl_count (scan_lines (Some data))))))
        = Inr (cm', mats')
    \<and> scene' = scene \<lparr> num_materials :=
                   num_materials scene + word_of_nat (newmtl_count (scan_lines (Some data))),
                 materials := mats' \<rparr>"
proof -
  from assms obtain data where d: "fs filename = Some data"
    by (auto simp: load_mtl_file_def load_file_data_def split: option.splits)
  from assms d obtain scene1 where
    c: "for_each mtl_count_body (scan_lines (Some data)) scene = Inr scene1"
    by (auto simp: load_mtl_file_def load_file_data_def Let_def split: sum.splits)
  note s1 = mtl_count_loop [OF c]
  from assms d c show ?thesis
    by (auto simp: load_mtl_file_def load_file_data_def Let_def s1 split: sum.splits)
qed

text \<open>
  Claim C10. When \<open>_load_mtl_file\<close> returns, every material it added has
  \<open>specular_power\<close> 16, whatever the library holds (an \<open>Ns\<close> line writes
  \<open>specular_coefficient\<close> only), and the materials that were there before keep theirs.
  The material table is as long as \<open>num_materials\<close> says.
\<close>

theorem load_mtl_file_specular_power:
  assumes "load_mtl_file fs strtof fresh filename scene = Inr scene'"
    and "length (materials scene) = unat (num_materials scene)"
  shows "length (materials scene') = unat (num_materials scene')
       \<and> (\<forall>k<length (materials scene').
            length (materials scene) \<le> k \<longrightarrow> specular_power (materials scene' ! k) = 16)
       \<and> (\<forall>k<length (materials scene).
            k < length (materials scene') \<longrightarrow>
            specular_power (materials scene' ! k) = specular_power (materials scene ! k))"
proof -
  from load_mtl_file_unfold [OF assms(1)] obtain data cm' mats' where
    d: "fs filename = Some data"
    and loop: "for_each (mtl_body strtof) (scan_lines (Some data))
         (sint (num_materials scene) - 1,
          realloc_array fresh (materials scene)
            (unat (num_materials scene + word_of_nat (newmtl_count (scan_lines (Some data))))))
        = Inr (cm', mats')"
    and sc: "scene' = scene \<lparr> num_materials :=
                   num_materials scene + word_of_nat (newmtl_count (scan_lines (Some data))),
                 materials := mats' \<rparr>"
    by blast
  let ?c = "newmtl_count (scan_lines (Some data))"
  let ?num = "num_materials scene"
  let ?L = "unat (?num + word_of_nat ?c)"
  let ?m1 = "realloc_array fresh (materials scene) ?L"
  let ?orig = "length (materials scene)"
  from mtl_loop_effect [OF loop]
  have len: "length mats' = ?L"
    and cm': "cm' = sint ?num - 1 + int ?c"
    and pos: "0 < ?c \<Longrightarrow> 0 \<le> sint ?num \<and> cm' < int ?L"
    and pw: "\<And>k. k < ?L \<Longrightarrow>
         (if sint ?num - 1 < int k \<and> int k \<le> cm' then specular_power (mats' ! k) = 16
          else specular_power (mats' ! k) = specular_power (?m1 ! k))"
    by (auto simp: realloc_array_length)
  have new: "specular_power (mats' ! k) = 16" if k: "k < ?L" "?orig \<le> k" for k
  proof (cases "?c = 0")
    case True
    then show ?thesis using k assms(2) by simp
  next
    case False
    then have "0 \<le> sint ?num" using pos by simp
    then have sn: "sint ?num = int ?orig" using assms(2) by (simp add: sint_nonneg_unat)
    have "k < ?orig + ?c" using k(1) unat_add_of_nat_le [of ?num ?c] assms(2) by linarith
    then have "sint ?num - 1 < int k \<and> int k \<le> cm'" using sn k(2) cm' by linarith
    then show ?thesis using pw [OF k(1)] by simp
  qed
  have old: "specular_power (mats' ! k) = specular_power (materials scene ! k)"
    if k: "k < ?orig" "k < ?L" for k
  proof -
    have "\<not> (sint ?num - 1 < int k \<and> int k \<le> cm')"
    proof (cases "?c = 0")
      case True
      then show ?thesis using cm' by simp
    next
      case False
      then have "0 \<le> sint ?num" using pos by simp
      then have "sint ?num = int ?orig" using assms(2) by (simp add: sint_nonneg_unat)
      then show ?thesis using k(1) by linarith
    qed
    then have "specular_power (mats' ! k) = specular_power (?m1 ! k)"
      using pw [OF k(2)] by simp
    then show ?thesis using k by (simp add: realloc_array_old)
  qed
  show ?thesis
    using new old len by (simp add: sc)
qed

lemma ex_mtl_run:
  "load_mtl_file ex_fs ex_strtof ex_fresh_material ''a.mtl'' scene0 =
     Inr \<lparr> meshes = [],
           materials =
             [\<lparr> MaterialData.name = ''Metal'', albedo_tex = [], normal_tex = ''first.png'',
                 specular_color = Vec3 1 2 3, specular_power = 16, specular_coefficient = 5 \<rparr>,
              \<lparr> MaterialData.name = ''Wood'', albedo_tex = [], normal_tex = [],
                 specular_color = Vec3 0 0 0, specular_power = 16, specular_coefficient = 0 \<rparr>],
           models = [], num_meshes = 0, num_materials = 2, num_models = 0 \<rparr>"
  by code_simp

theorem load_mtl_file_specular_power_witness:
  "load_mtl_file ex_fs ex_strtof ex_fresh_material ''a.mtl'' scene0 =
     Inr \<lparr> meshes = [],
           materials =
             [\<lparr> MaterialData.name = ''Metal'', albedo_tex = [], normal_tex = ''first.png'',
                 specular_color = Vec3 1 2 3, specular_power = 16, specular_coefficient = 5 \<rparr>,
              \<lparr> MaterialData.name = ''Wood'', albedo_tex = [], normal_tex = [],
                 specular_color = Vec3 0 0 0, specular_power = 16, specular_coefficient = 0 \<rparr>],
           models = [], num_meshes = 0, num_materials = 2, num_models = 0 \<rparr>
   \<and> length (materials (scene0 :: real SceneData)) = unat (num_materials (scene0 :: real SceneData))
   \<and> specular_power
         ([\<lparr> MaterialData.name = ''Metal'', albedo_tex = [], normal_tex = ''first.png'',
             specular_color = Vec3 1 2 3, specular_power = 16 :: real, specular_coefficient = 5 \<rparr>,
           \<lparr> MaterialData.name = ''Wood'', albedo_tex = [], normal_tex = [],
             specular_color = Vec3 0 0 0, specular_power = 16, specular_coefficient = 0 \<rparr>] ! 0) = 16
   \<and> specular_coefficient
         ([\<lparr> MaterialData.name = ''Metal'', albedo_tex = [], normal_tex = ''first.png'',
             specular_color = Vec3 1 2 3, specular_power = 16 :: real, specular_coefficient = 5 \<rparr>,
           \<lparr> MaterialData.name = ''Wood'', albedo_tex = [], normal_tex = [],
             specular_color = Vec3 0 0 0, specular_power = 16, specular_coefficient = 0 \<rparr>] ! 0) = 5"
proof -
  have wf: "length (materials (scene0 :: real SceneData)) = unat (num_materials (scene0 :: real SceneData))"
    by (simp add: scene0_def)
  show ?thesis
    using load_mtl_file_specular_power [OF ex_mtl_run wf] ex_mtl_run wf by simp
qed

text \<open>
  Claim C5. The guard of the \<open>map_bump\<close> branch reads \<open>normal_tex[0]\<close> of a material
  that \<open>realloc\<close> handed out and nothing cleared. On cleared storage the first
  \<open>map_bump\<close> line is recorded and the second ignored (\<open>ex_mtl_run\<close>); on storage
  that still holds other text both lines are ignored and the material keeps that text.
\<close>

theorem map_bump_on_stale_storage:
  "load_mtl_file ex_fs ex_strtof ex_stale_material ''a.mtl'' scene0 =
     Inr \<lparr> meshes = [],
           materials =
             [\<lparr> MaterialData.name = ''Metal'', albedo_tex = ''v 1 2 3'', normal_tex = ''v 1 2 3'',
                 specular_color = Vec3 1 2 3, specular_power = 16, specular_coefficient = 5 \<rparr>,
              \<lparr> MaterialData.name = ''Wood'', albedo_tex = ''v 1 2 3'', normal_tex = ''v 1 2 3'',
                 specular_color = Vec3 7 7 7, specular_power = 16, specular_coefficient = 7 \<rparr>],
           models = [], num_meshes = 0, num_materials = 2, num_models = 0 \<rparr>"
  by code_simp

section \<open>The count pass and the run\<close>

lemma load_mtl_file_frame:
  assumes "load_mtl_file fs strtof fresh filename scene = Inr scene'"
  shows "meshes scene' = meshes scene \<and> models scene' = models scene
       \<and> num_meshes scene' = num_meshes scene \<and> num_models scene' = num_models scene"
  using load_mtl_file_unfold [OF assms] by auto

lemma count_body_effect:
  assumes "count_body fs strtof fm r (a, b, c, fmesh, scene) = Inr (a', b', c', fmesh', scene')"
  shows "fmesh' = fmesh + (if obj_header r = Inr ''usemtl'' then 1 else 0)
       \<and> num_meshes scene' = num_meshes scene + (if obj_header r = Inr ''usemtl'' then 1 else 0)
       \<and> num_models scene' = num_models scene + (if obj_header r = Inr ''usemtl'' then 1 else 0)
       \<and> meshes scene' = meshes scene \<and> models scene' = models scene"
proof -
  obtain this_line line next_line where r: "r = (this_line, line, next_line)"
    by (cases r) auto
  from assms obtain header where h: "line_header 16 line = Inr header"
    by (auto simp: count_body_def r split: sum.splits)
  have oh: "obj_header r = Inr header" by (simp add: obj_header_def r h)
  note run = assms [unfolded r]
  consider (usemtl) "header = ''usemtl''" | (mtllib) "header = ''mtllib''"
    | (other) "header \<noteq> ''usemtl''" "header \<noteq> ''mtllib''"
    by blast
  then show ?thesis
  proof cases
    case usemtl
    have hh: "line_header 16 line = Inr ''usemtl''" using h usemtl by simp
    from run show ?thesis
      by (auto simp: count_body_def hh oh usemtl)
  next
    case mtllib
    have hh: "line_header 16 line = Inr ''mtllib''" using h mtllib by simp
    from run have "\<exists>f. load_mtl_file fs strtof fm f scene = Inr scene' \<and> fmesh' = fmesh"
      by (auto simp: count_body_def hh split: sum.splits prod.splits option.splits if_splits)
    then obtain f where l: "load_mtl_file fs strtof fm f scene = Inr scene'" and fm: "fmesh' = fmesh"
      by blast
    show ?thesis
      using load_mtl_file_frame [OF l] fm by (simp add: oh mtllib)
  next
    case other
    from run other show ?thesis
      by (auto simp: count_body_def h oh split: if_splits)
  qed
qed

lemma count_loop_effect:
  "for_each (count_body fs strtof fm) rs (a, b, c, fmesh, scene) = Inr (a', b', c', fmesh', scene') \<Longrightarrow>
     fmesh' = fmesh + word_of_nat (usemtl_count rs)
   \<and> num_meshes scene' = num_meshes scene + word_of_nat (usemtl_count rs)
   \<and> num_models scene' = num_models scene + word_of_nat (usemtl_count rs)
   \<and> meshes scene' = meshes scene \<and> models scene' = models scene"
proof (induction rs arbitrary: a b c fmesh scene)
  case Nil
  then show ?case by (simp add: usemtl_count_def)
next
  case (Cons r rs)
  from Cons.prems obtain a1 b1 c1 f1 s1 where
    st: "count_body fs strtof fm r (a, b, c, fmesh, scene) = Inr (a1, b1, c1, f1, s1)"
    and rest: "for_each (count_body fs strtof fm) rs (a1, b1, c1, f1, s1) = Inr (a', b', c', fmesh', scene')"
    by (auto split: sum.splits)
  show ?case
    using Cons.IH [OF rest] count_body_effect [OF st]
    by (simp add: usemtl_count_def)
qed

lemma scan_lines_None: "scan_lines None = []"
  by simp

lemma load_obj_unfold:
  assumes "load_obj fs strtof fm fme fmo filename scene = Inr (scene', P, T, N, tris)"
  shows "\<exists>data a b c fmesh scene1.
      fs filename = Some data
    \<and> for_each (count_body fs strtof fm) (scan_lines (Some data)) (0, 0, 0, 0, scene)
        = Inr (a, b, c, fmesh, scene1)
    \<and> scene' = scene1 \<lparr> meshes := realloc_array fme (meshes scene1) (unat (num_meshes scene1)),
                         models := realloc_array fmo (models scene1) (unat (num_models scene1)) \<rparr>
    \<and> P = [] \<and> N = [] \<and> T = [tex] \<and> tris = replicate (unat fmesh) []"
proof -
  from assms obtain data where d: "fs filename = Some data"
    by (auto simp: load_obj_def load_file_data_def Let_def split: option.splits)
  from assms d obtain a b c fmesh scene1 where
    c: "for_each (count_body fs strtof fm) (scan_lines (Some data)) (0, 0, 0, 0, scene)
        = Inr (a, b, c, fmesh, scene1)"
    by (auto simp: load_obj_def load_file_data_def Let_def split: sum.splits prod.splits)
  from assms d c show ?thesis
    by (auto simp: load_obj_def load_file_data_def Let_def)
qed

lemma load_obj_counts:
  assumes "load_obj fs strtof fm fme fmo filename scene = Inr r"
  shows "num_meshes (fst r) = num_meshes scene + word_of_nat (file_usemtl_count fs filename)
       \<and> num_models (fst r) = num_models scene + word_of_nat (file_usemtl_count fs filename)
       \<and> length (meshes (fst r)) = unat (num_meshes (fst r))
       \<and> length (models (fst r)) = unat (num_models (fst r))"
proof -
  obtain scene' P T N tris where r: "r = (scene', P, T, N, tris)"
    by (cases r) auto
  from load_obj_unfold [OF assms [unfolded r]] obtain data a b c fmesh scene1 where
    d: "fs filename = Some data"
    and cnt: "for_each (count_body fs strtof fm) (scan_lines (Some data)) (0, 0, 0, 0, scene)
        = Inr (a, b, c, fmesh, scene1)"
    and sc: "scene' = scene1 \<lparr> meshes := realloc_array fme (meshes scene1) (unat (num_meshes scene1)),
                         models := realloc_array fmo (models scene1) (unat (num_models scene1)) \<rparr>"
    by blast
  show ?thesis
    using count_loop_effect [OF cnt]
    by (simp add: r sc d file_usemtl_count_def realloc_array_length)
qed

lemma unat_add_of_nat_eq:
  "unat (a :: 32 word) + c < 2 ^ 32 \<Longrightarrow> unat (a + word_of_nat c) = unat a + c"
  by (simp add: unat_word_ariths unat_of_nat)

text \<open>
  Claim C8. Running the files of a run one after the other, from a scene whose mesh
  and model tables are as long as its counters say (the empty scene \<open>main\<close> starts from
  is one): if every file loads, the counters \<open>num_meshes\<close> and \<open>num_models\<close> have each
  grown by the number of \<open>usemtl\<close> records of the files, the tables are as long as the
  counters say, and, the counters being 32 bits wide, the tables have grown by that
  number as long as it fits. One file is a run of one file.
\<close>

theorem usemtl_count_is_mesh_and_model_count:
  assumes "load_files fs strtof fm fme fmo files scene = Inr scene'"
    and "length (meshes scene) = unat (num_meshes scene)"
    and "length (models scene) = unat (num_models scene)"
  shows "num_meshes scene'
           = num_meshes scene + word_of_nat (sum_list (map (file_usemtl_count fs) files))
       \<and> num_models scene'
           = num_models scene + word_of_nat (sum_list (map (file_usemtl_count fs) files))
       \<and> length (meshes scene') = unat (num_meshes scene')
       \<and> length (models scene') = unat (num_models scene')
       \<and> (unat (num_meshes scene) + sum_list (map (file_usemtl_count fs) files) < 2 ^ 32 \<longrightarrow>
            length (meshes scene')
              = length (meshes scene) + sum_list (map (file_usemtl_count fs) files))
       \<and> (unat (num_models scene) + sum_list (map (file_usemtl_count fs) files) < 2 ^ 32 \<longrightarrow>
            length (models scene')
              = length (models scene) + sum_list (map (file_usemtl_count fs) files))"
proof -
  have core: "num_meshes scene'
           = num_meshes scene + word_of_nat (sum_list (map (file_usemtl_count fs) files))
       \<and> num_models scene'
           = num_models scene + word_of_nat (sum_list (map (file_usemtl_count fs) files))
       \<and> length (meshes scene') = unat (num_meshes scene')
       \<and> length (models scene') = unat (num_models scene')"
    using assms
  proof (induction files arbitrary: scene)
    case Nil
    then show ?case by (simp add: load_files_def)
  next
    case (Cons f files)
    from Cons.prems(1) obtain r where
      one: "load_obj fs strtof fm fme fmo f scene = Inr r"
      and rest: "load_files fs strtof fm fme fmo files (fst r) = Inr scene'"
      by (auto simp: load_files_def split: sum.splits)
    note c = load_obj_counts [OF one]
    from Cons.IH [OF rest] c show ?case
      by (simp add: add.assoc)
  qed
  show ?thesis
    using core assms(2,3) by (auto simp: unat_add_of_nat_eq)
qed

lemma ex_obj_run:
  "load_files ex_fs ex_strtof ex_fresh_material ex_fresh_mesh ex_fresh_model [''a.obj''] scene0 =
     Inr \<lparr> meshes = [ex_fresh_mesh 0, ex_fresh_mesh 1],
           materials =
             [\<lparr> MaterialData.name = ''Metal'', albedo_tex = [], normal_tex = ''first.png'',
                 specular_color = Vec3 1 2 3, specular_power = 16, specular_coefficient = 5 \<rparr>,
              \<lparr> MaterialData.name = ''Wood'', albedo_tex = [], normal_tex = [],
                 specular_color = Vec3 0 0 0, specular_power = 16, specular_coefficient = 0 \<rparr>],
           models = [ex_fresh_model 0, ex_fresh_model 1],
           num_meshes = 2, num_materials = 2, num_models = 2 \<rparr>"
  by code_simp

lemma ex_obj_usemtl_count: "file_usemtl_count ex_fs ''a.obj'' = 2"
  by code_simp

theorem usemtl_count_is_mesh_and_model_count_witness:
  "load_files ex_fs ex_strtof ex_fresh_material ex_fresh_mesh ex_fresh_model [''a.obj''] scene0 =
     Inr \<lparr> meshes = [ex_fresh_mesh 0, ex_fresh_mesh 1],
           materials =
             [\<lparr> MaterialData.name = ''Metal'', albedo_tex = [], normal_tex = ''first.png'',
                 specular_color = Vec3 1 2 3, specular_power = 16, specular_coefficient = 5 \<rparr>,
              \<lparr> MaterialData.name = ''Wood'', albedo_tex = [], normal_tex = [],
                 specular_color = Vec3 0 0 0, specular_power = 16, specular_coefficient = 0 \<rparr>],
           models = [ex_fresh_model 0, ex_fresh_model 1],
           num_meshes = 2, num_materials = 2, num_models = 2 \<rparr>
   \<and> length (meshes (scene0 :: real SceneData)) = unat (num_meshes (scene0 :: real SceneData))
   \<and> length (models (scene0 :: real SceneData)) = unat (num_models (scene0 :: real SceneData))
   \<and> sum_list (map (file_usemtl_count ex_fs) [''a.obj'']) = 2
   \<and> length [ex_fresh_mesh 0, ex_fresh_mesh 1] = 2
   \<and> length [ex_fresh_model 0, ex_fresh_model 1] = 2"
proof -
  have wf: "length (meshes (scene0 :: real SceneData)) = unat (num_meshes (scene0 :: real SceneData))"
    "length (models (scene0 :: real SceneData)) = unat (num_models (scene0 :: real SceneData))"
    by (simp_all add: scene0_def)
  show ?thesis
    using usemtl_count_is_mesh_and_model_count [OF ex_obj_run wf] ex_obj_run wf
    by (simp add: ex_obj_usemtl_count)
qed

section \<open>The attribute-fill pass\<close>

lemma fill_body_textured:
  assumes "fill_body strtof r (P, N, T, tx) = Inr (P', N', T', tx')"
  shows "tx' = (if obj_header r = Inr ''v'' then 0
                else if obj_header r = Inr ''vt'' then 1 else tx)"
proof -
  obtain this_line line next_line where r: "r = (this_line, line, next_line)"
    by (cases r) auto
  from assms obtain header where h: "line_header 16 line = Inr header"
    by (auto simp: fill_body_def r split: sum.splits)
  have oh: "obj_header r = Inr header" by (simp add: obj_header_def r h)
  note run = assms [unfolded r]
  consider (v) "header = ''v''" | (vt) "header = ''vt''"
    | (other) "header \<noteq> ''v''" "header \<noteq> ''vt''"
    by blast
  then show ?thesis
  proof cases
    case v
    have hh: "line_header 16 line = Inr ''v''" using h v by simp
    from run show ?thesis
      by (auto simp: fill_body_def hh oh v split: list.splits scanned.splits)
  next
    case vt
    have hh: "line_header 16 line = Inr ''vt''" using h vt by simp
    from run show ?thesis
      by (auto simp: fill_body_def hh oh vt split: list.splits scanned.splits)
  next
    case other
    from run other show ?thesis
      by (auto simp: fill_body_def h oh split: if_splits list.splits scanned.splits)
  qed
qed

lemma last_v_or_vt_Cons:
  "last_v_or_vt (r # rs) =
     (case last_v_or_vt rs of
        Some u \<Rightarrow> Some u
      | None \<Rightarrow> if obj_header r = Inr ''v'' \<or> obj_header r = Inr ''vt'' then Some r else None)"
  by (simp add: last_v_or_vt_def find_snoc)

lemma fill_loop_textured:
  "for_each (fill_body strtof) rs (P, N, T, tx) = Inr (P', N', T', tx') \<Longrightarrow>
     tx' = (case last_v_or_vt rs of
              None \<Rightarrow> tx
            | Some r \<Rightarrow> if obj_header r = Inr ''vt'' then 1 else 0)"
proof (induction rs arbitrary: P N T tx)
  case Nil
  then show ?case by (simp add: last_v_or_vt_def)
next
  case (Cons r rs)
  from Cons.prems obtain P1 N1 T1 tx1 where
    a: "fill_body strtof r (P, N, T, tx) = Inr (P1, N1, T1, tx1)"
    and b: "for_each (fill_body strtof) rs (P1, N1, T1, tx1) = Inr (P', N', T', tx')"
    by (auto split: sum.splits)
  show ?case
    using Cons.IH [OF b] fill_body_textured [OF a]
    by (auto simp: last_v_or_vt_Cons split: option.splits)
qed

text \<open>
  Claim C2, as amended. The flag starts at 0; a \<open>v\<close> line clears it and a \<open>vt\<close> line
  sets it. After the attribute-fill loop has gone over the records of a file, the flag
  is set if and only if the last record that is a \<open>v\<close> or a \<open>vt\<close> record is a \<open>vt\<close>
  record: a file with a \<open>vt\<close> line has the flag set only if no \<open>v\<close> line follows its
  last \<open>vt\<close> line. The flag is one value for the file: the group/face pass takes it
  as it stands after the loop, for every face record alike.
\<close>

theorem textured_flag_after_fill:
  assumes "for_each (fill_body strtof) rs (P, N, T, 0) = Inr (P', N', T', textured)"
  shows "(textured = 0 \<or> textured = 1)
       \<and> (textured \<noteq> 0) = (\<exists>r. last_v_or_vt rs = Some r \<and> obj_header r = Inr ''vt'')"
  using fill_loop_textured [OF assms] by (auto split: option.splits)

theorem textured_flag_after_fill_witness:
  "for_each (fill_body ex_strtof) (scan_lines (Some ex_obj)) ([], [], [tex], 0)
     = Inr ([Vec3 0 0 0, Vec3 1 0 0, Vec3 0 1 0], [Vec3 0 0 1], [tex, \<lparr>x = 0, y = 0\<rparr>], 1)
   \<and> last_v_or_vt (scan_lines (Some ex_obj))
       = Some (''vt 0 0\<newline>vn 0 0 1\<newline>g Turret\<newline>usemtl Metal\<newline>f 1/1/1 2/1/1 3/1/1\<newline>usemtl Wood\<newline>f 1/1/1 2/1/1 3/1/1 2/1/1 3/1/1\<newline>'',
               ''vt 0 0'',
               Some ''vn 0 0 1\<newline>g Turret\<newline>usemtl Metal\<newline>f 1/1/1 2/1/1 3/1/1\<newline>usemtl Wood\<newline>f 1/1/1 2/1/1 3/1/1 2/1/1 3/1/1\<newline>'')"
proof -
  have run: "for_each (fill_body ex_strtof) (scan_lines (Some ex_obj)) ([], [], [tex], 0)
     = Inr ([Vec3 0 0 0, Vec3 1 0 0, Vec3 0 1 0], [Vec3 0 0 1], [tex, \<lparr>x = 0, y = 0\<rparr>], 1)"
    by code_simp
  have l: "last_v_or_vt (scan_lines (Some ex_obj))
       = Some (''vt 0 0\<newline>vn 0 0 1\<newline>g Turret\<newline>usemtl Metal\<newline>f 1/1/1 2/1/1 3/1/1\<newline>usemtl Wood\<newline>f 1/1/1 2/1/1 3/1/1 2/1/1 3/1/1\<newline>'',
               ''vt 0 0'',
               Some ''vn 0 0 1\<newline>g Turret\<newline>usemtl Metal\<newline>f 1/1/1 2/1/1 3/1/1\<newline>usemtl Wood\<newline>f 1/1/1 2/1/1 3/1/1 2/1/1 3/1/1\<newline>'')"
    by code_simp
  show ?thesis
    using textured_flag_after_fill [OF run] run l by simp
qed

theorem textured_flag_counterexample:
  "for_each (fill_body ex_strtof) (scan_lines (Some ''vt 0 0\<newline>v 0 0 0'')) ([], [], [tex], 0)
     = Inr ([Vec3 0 0 0], [], [tex, \<lparr>x = 0, y = 0\<rparr>], 0)
   \<and> obj_header (scan_lines (Some ''vt 0 0\<newline>v 0 0 0'') ! 0) = Inr ''vt''"
  by code_simp

section \<open>The group/face pass: face records\<close>

lemma takeWhile_stop: "\<not> P b \<Longrightarrow> takeWhile P (xs @ b # ys) = takeWhile P xs"
  by (induction xs) auto

lemma dropWhile_stop: "\<not> P b \<Longrightarrow> dropWhile P (xs @ b # ys) = dropWhile P xs @ b # ys"
  by (induction xs) auto

lemma dropWhile_append_nonempty:
  "dropWhile P xs \<noteq> [] \<Longrightarrow> dropWhile P (xs @ ys) = dropWhile P xs @ ys"
  by (induction xs) auto

lemma scan_length_le: "length (scan sf inp ds) \<le> conversions ds"
proof (induction ds arbitrary: inp)
  case Nil
  then show ?case by simp
next
  case (Cons d ds)
  show ?case
  proof (cases d)
    case Space
    then show ?thesis using Cons.IH by (simp add: conversions_def)
  next
    case (Lit c)
    then show ?thesis
      using Cons.IH by (cases inp) (auto simp: conversions_def)
  next
    case PctS
    then show ?thesis
      using Cons.IH [of "dropWhile (\<lambda>c. \<not> isspace c) (dropWhile isspace inp)"]
      by (simp add: conversions_def Let_def)
  next
    case PctD
    then show ?thesis
      using Cons.IH by (auto simp: conversions_def split: option.splits)
  next
    case PctF
    then show ?thesis
      using Cons.IH by (auto simp: conversions_def split: option.splits)
  qed
qed

lemma scan_no_conversions: "conversions ds = 0 \<Longrightarrow> scan sf inp ds = []"
  using scan_length_le [of sf inp ds] by simp

lemma scan_int_Nil: "scan_int [] = None"
  by (simp add: scan_int_def)

lemma scan_Nil: "PctF \<notin> set ds \<Longrightarrow> scan sf [] ds = []"
proof (induction ds)
  case Nil
  then show ?case by simp
next
  case (Cons d ds)
  then show ?case by (cases d) (auto simp: scan_int_Nil Let_def)
qed

lemma isdigit_not_space: "isspace c \<Longrightarrow> \<not> isdigit c"
  by (auto simp: isspace_def isdigit_def)

lemma scan_int_extend:
  assumes "scan_int body = Some (v, r)" and "isspace sep"
  shows "scan_int (body @ sep # extra) = Some (v, r @ sep # extra)"
proof -
  have nd: "\<not> isdigit sep" using assms(2) by (rule isdigit_not_space)
  have sp: "sep \<noteq> CHR ''-''" "sep \<noteq> CHR ''+''" using assms(2) by (auto simp: isspace_def)
  show ?thesis
  proof (cases body)
    case Nil
    then show ?thesis using assms by (simp add: scan_int_Nil)
  next
    case (Cons c rest)
    show ?thesis
      using assms(1) nd
      by (auto simp: scan_int_def Cons Let_def takeWhile_stop dropWhile_stop split: if_splits)
  qed
qed

lemma conversions_Cons:
  "conversions (d # ds) = (if d = PctS \<or> d = PctD \<or> d = PctF then Suc (conversions ds)
                           else conversions ds)"
  by (simp add: conversions_def)

lemma scan_extend:
  assumes "isspace sep"
  shows "PctF \<notin> set ds \<Longrightarrow> length (scan sf inp ds) = conversions ds \<Longrightarrow>
         scan sf (inp @ sep # extra) ds = scan sf inp ds"
proof (induction ds arbitrary: inp)
  case Nil
  then show ?case by simp
next
  case (Cons d ds)
  have nf: "PctF \<notin> set ds" using Cons.prems(1) by simp
  show ?case
  proof (cases d)
    case Space
    show ?thesis
    proof (cases "dropWhile isspace inp = []")
      case True
      have "scan sf inp (d # ds) = []"
        using nf by (simp add: Space True scan_Nil)
      then have "conversions ds = 0" using Cons.prems(2) by (simp add: Space conversions_Cons)
      then show ?thesis by (simp add: Space scan_no_conversions)
    next
      case False
      have "length (scan sf (dropWhile isspace inp) ds) = conversions ds"
        using Cons.prems(2) by (simp add: Space conversions_Cons)
      from Cons.IH [OF nf this] False show ?thesis
        by (simp add: Space dropWhile_append_nonempty)
    qed
  next
    case (Lit c)
    show ?thesis
    proof (cases inp)
      case Nil
      then have "conversions ds = 0" using Cons.prems(2) by (simp add: Lit conversions_Cons)
      then show ?thesis by (simp add: Lit Nil scan_no_conversions)
    next
      case (Cons a r)
      show ?thesis
      proof (cases "a = c")
        case True
        have "length (scan sf r ds) = conversions ds"
          using Cons.prems(2) by (simp add: Lit Cons True conversions_Cons)
        from Cons.IH [OF nf this] show ?thesis by (simp add: Lit Cons True)
      next
        case False
        then show ?thesis by (simp add: Lit Cons)
      qed
    qed
  next
    case PctS
    let ?body = "dropWhile isspace inp"
    let ?tok = "takeWhile (\<lambda>c. \<not> isspace c) ?body"
    let ?rest = "dropWhile (\<lambda>c. \<not> isspace c) ?body"
    have tok: "?tok \<noteq> []"
      using Cons.prems(2) by (auto simp: PctS conversions_Cons Let_def split: if_splits)
    have body: "?body \<noteq> []"
    proof
      assume "?body = []"
      then have "?tok = []" by (simp only: takeWhile.simps)
      then show False using tok by simp
    qed
    have len: "length (scan sf ?rest ds) = conversions ds"
      using Cons.prems(2) tok by (simp add: PctS conversions_Cons Let_def)
    have b: "dropWhile isspace (inp @ sep # extra) = ?body @ sep # extra"
      using body by (rule dropWhile_append_nonempty)
    have t: "takeWhile (\<lambda>c. \<not> isspace c) (?body @ sep # extra) = ?tok"
      using assms by (simp add: takeWhile_stop)
    have r: "dropWhile (\<lambda>c. \<not> isspace c) (?body @ sep # extra) = ?rest @ sep # extra"
      using assms by (simp add: dropWhile_stop)
    show ?thesis
      using Cons.IH [OF nf len] tok by (simp add: PctS Let_def b t r)
  next
    case PctD
    let ?body = "dropWhile isspace inp"
    from Cons.prems(2) obtain v r where si: "scan_int ?body = Some (v, r)"
      by (auto simp: PctD conversions_Cons split: option.splits)
    have body: "?body \<noteq> []"
    proof
      assume "?body = []"
      then have "scan_int ?body = None" by (simp only: scan_int_Nil)
      then show False using si by simp
    qed
    have len: "length (scan sf r ds) = conversions ds"
      using Cons.prems(2) si by (simp add: PctD conversions_Cons)
    have b: "dropWhile isspace (inp @ sep # extra) = ?body @ sep # extra"
      using body by (rule dropWhile_append_nonempty)
    show ?thesis
      using Cons.IH [OF nf len] scan_int_extend [OF si assms, of extra]
      by (simp add: PctD b si)
  next
    case PctF
    then show ?thesis using Cons.prems(1) by simp
  qed
qed

lemma face_formats:
  "parse_format face_format_textured =
     [PctS, Space, PctD, Lit CHR ''/'', PctD, Lit CHR ''/'', PctD, Space,
      PctD, Lit CHR ''/'', PctD, Lit CHR ''/'', PctD, Space,
      PctD, Lit CHR ''/'', PctD, Lit CHR ''/'', PctD, Space,
      PctD, Lit CHR ''/'', PctD, Lit CHR ''/'', PctD, Space]"
  "parse_format face_format_untextured =
     [PctS, Space, PctD, Lit CHR ''/'', Lit CHR ''/'', PctD, Space,
      PctD, Lit CHR ''/'', Lit CHR ''/'', PctD, Space,
      PctD, Lit CHR ''/'', Lit CHR ''/'', PctD, Space,
      PctD, Lit CHR ''/'', Lit CHR ''/'', PctD, Space]"
  by (simp_all add: face_format_textured_def face_format_untextured_def isspace_def)

lemma face_format_conversions:
  "conversions (parse_format face_format_textured) = 13"
  "conversions (parse_format face_format_untextured) = 9"
  "PctF \<notin> set (parse_format face_format_textured)"
  "PctF \<notin> set (parse_format face_format_untextured)"
  by (simp_all add: face_formats conversions_def)

lemma sscanf_face_length:
  "length (sscanf no_float line face_format_textured) \<le> 13"
  "length (sscanf no_float line face_format_untextured) \<le> 9"
  using scan_length_le [of no_float line "parse_format face_format_textured"]
    scan_length_le [of no_float line "parse_format face_format_untextured"]
  by (simp_all add: sscanf_def face_format_conversions)

lemma sscanf_face_extend:
  assumes "isspace sep"
  shows "length (sscanf no_float line face_format_textured) = 13 \<Longrightarrow>
         sscanf no_float (line @ sep # extra) face_format_textured
           = sscanf no_float line face_format_textured"
    and "length (sscanf no_float line face_format_untextured) = 9 \<Longrightarrow>
         sscanf no_float (line @ sep # extra) face_format_untextured
           = sscanf no_float line face_format_untextured"
  using scan_extend [OF assms, of "parse_format face_format_textured" no_float line extra]
    scan_extend [OF assms, of "parse_format face_format_untextured" no_float line extra]
  by (simp_all add: sscanf_def face_format_conversions)

lemma matches_of_eq: "0 < k \<Longrightarrow> (matches_of vs = int k) = (length vs = k)"
  by (auto simp: matches_of_def)

lemma face_record_cases:
  "face_record textured od line =
     (if textured \<noteq> 0 then
        (let vs = sscanf no_float line face_format_textured;
             triangle = (\<lambda>k. \<lparr> p = int_at vs (1 + 3 * k), t = int_at vs (2 + 3 * k),
                                n = int_at vs (3 + 3 * k) \<rparr>)
         in if length vs = 10 then Inr [Triangle (triangle 0) (triangle 1) (triangle 2)]
            else if length vs = 13
            then Inr [Triangle (triangle 0) (triangle 1) (triangle 2),
                      Triangle (triangle 0) (triangle 2) (triangle 3)]
            else Inl (Exit 1 cant_load od))
      else
        (let vs = sscanf no_float line face_format_untextured;
             triangle = (\<lambda>k. \<lparr> p = int_at vs (1 + 2 * k), t = 0, n = int_at vs (2 + 2 * k) \<rparr>)
         in if length vs = 7 then Inr [Triangle (triangle 0) (triangle 1) (triangle 2)]
            else if length vs = 9
            then Inr [Triangle (triangle 0) (triangle 1) (triangle 2),
                      Triangle (triangle 0) (triangle 2) (triangle 3)]
            else Inl (Exit 1 cant_load od)))"
  using matches_of_eq [of 10 "sscanf no_float line face_format_textured"]
    matches_of_eq [of 13 "sscanf no_float line face_format_textured"]
    matches_of_eq [of 7 "sscanf no_float line face_format_untextured"]
    matches_of_eq [of 9 "sscanf no_float line face_format_untextured"]
  by (auto simp: face_record_def Let_def)

lemma face_record_quad_length:
  assumes "face_record textured od line = Inr [t1, t2]"
  shows "if textured \<noteq> 0 then length (sscanf no_float line face_format_textured) = 13
         else length (sscanf no_float line face_format_untextured) = 9"
  using assms by (auto simp: face_record_cases Let_def split: if_splits)

lemma face_record_extend:
  assumes "isspace sep" and "face_record textured od line = Inr [t1, t2]"
  shows "face_record textured od (line @ sep # extra) = Inr [t1, t2]"
proof (cases "textured \<noteq> 0")
  case True
  have l: "length (sscanf no_float line face_format_textured) = 13"
    using face_record_quad_length [OF assms(2)] True by simp
  have "sscanf no_float (line @ sep # extra) face_format_textured
      = sscanf no_float line face_format_textured"
    using assms(1) l by (rule sscanf_face_extend)
  then have "face_record textured od (line @ sep # extra) = face_record textured od line"
    using True by (simp add: face_record_def)
  then show ?thesis using assms(2) by simp
next
  case False
  have l: "length (sscanf no_float line face_format_untextured) = 9"
    using face_record_quad_length [OF assms(2)] False by simp
  have "sscanf no_float (line @ sep # extra) face_format_untextured
      = sscanf no_float line face_format_untextured"
    using assms(1) l by (rule sscanf_face_extend)
  then have "face_record textured od (line @ sep # extra) = face_record textured od line"
    using False by (simp add: face_record_def)
  then show ?thesis using assms(2) by simp
qed

lemma group_body_face_rejected:
  assumes "line_header 16 line = Inr ''f''" and "face_record textured od line = Inl e"
  shows "group_body textured od (this_line, line, next_line) st = Inl e"
  using assms by (cases st) (simp add: group_body_def)

text \<open>
  What a face record gives. It is scanned with the format of the mode, which converts
  at most the header and four corner records. The record is accepted when exactly three
  corner records were converted in full (10 fields with texture coordinates, 7 without),
  and gives one triangle, or exactly four (13 fields, or 9), and gives two; any other
  outcome (fewer than three corners, a corner begun and not finished, a corner of the
  other grammar) prints the message, hands \<open>original_data\<close> to \<open>free_file_data\<close> and
  exits with status 1, and the pass stops there with nothing stored for the record.
  What follows the fourth corner is never looked at: a record that is accepted as a
  quad stays accepted, with the same two triangles, when white space and any text are
  put after it.
\<close>

lemma face_record_outcomes:
  "(face_record textured od line = Inl (Exit 1 cant_load od)
      \<or> (\<exists>a b c. face_record textured od line = Inr [Triangle a b c])
      \<or> (\<exists>a b c d. face_record textured od line = Inr [Triangle a b c, Triangle a c d]))
   \<and> ((\<exists>tris. face_record textured od line = Inr tris) =
        (if textured \<noteq> 0
         then matches_of (sscanf no_float line face_format_textured) = 10
            \<or> matches_of (sscanf no_float line face_format_textured) = 13
         else matches_of (sscanf no_float line face_format_untextured) = 7
            \<or> matches_of (sscanf no_float line face_format_untextured) = 9))
   \<and> matches_of (sscanf no_float line face_format_textured) \<le> 13
   \<and> matches_of (sscanf no_float line face_format_untextured) \<le> 9
   \<and> (\<forall>sep extra t1 t2.
         isspace sep \<longrightarrow> face_record textured od line = Inr [t1, t2] \<longrightarrow>
         face_record textured od (line @ sep # extra) = Inr [t1, t2])
   \<and> (\<forall>this_line next_line st e.
         line_header 16 line = Inr ''f'' \<longrightarrow> face_record textured od line = Inl e \<longrightarrow>
         group_body textured od (this_line, line, next_line) st = Inl e)"
proof -
  have a: "face_record textured od line = Inl (Exit 1 cant_load od)
      \<or> (\<exists>a b c. face_record textured od line = Inr [Triangle a b c])
      \<or> (\<exists>a b c d. face_record textured od line = Inr [Triangle a b c, Triangle a c d])"
    by (simp add: face_record_cases Let_def)
  have b: "(\<exists>tris. face_record textured od line = Inr tris) =
        (if textured \<noteq> 0
         then matches_of (sscanf no_float line face_format_textured) = 10
            \<or> matches_of (sscanf no_float line face_format_textured) = 13
         else matches_of (sscanf no_float line face_format_untextured) = 7
            \<or> matches_of (sscanf no_float line face_format_untextured) = 9)"
    by (auto simp: face_record_def Let_def)
  have c: "matches_of (sscanf no_float line face_format_textured) \<le> 13"
    "matches_of (sscanf no_float line face_format_untextured) \<le> 9"
    using sscanf_face_length [of line] by (auto simp: matches_of_def)
  show ?thesis
    using a b c face_record_extend group_body_face_rejected by blast
qed

lemma ex_quad_face:
  "face_record 1 None ''f 1/1/1 2/2/2 3/3/3 4/4/4''
     = Inr [Triangle \<lparr>p = 1, t = 1, n = 1\<rparr> \<lparr>p = 2, t = 2, n = 2\<rparr> \<lparr>p = 3, t = 3, n = 3\<rparr>,
            Triangle \<lparr>p = 1, t = 1, n = 1\<rparr> \<lparr>p = 3, t = 3, n = 3\<rparr> \<lparr>p = 4, t = 4, n = 4\<rparr>]"
  by code_simp

lemma ex_partial_face:
  "face_record 1 (Some ''x'') ''f 1/1/1 2/2/2 3/3/3 4/4'' = Inl (Exit 1 cant_load (Some ''x''))"
  "line_header 16 ''f 1/1/1 2/2/2 3/3/3 4/4'' = Inr ''f''"
  by code_simp+

lemma face_record_outcomes_instance:
  "isspace CHR '' ''
   \<and> face_record 1 None ''f 1/1/1 2/2/2 3/3/3 4/4/4''
       = Inr [Triangle \<lparr>p = 1, t = 1, n = 1\<rparr> \<lparr>p = 2, t = 2, n = 2\<rparr> \<lparr>p = 3, t = 3, n = 3\<rparr>,
              Triangle \<lparr>p = 1, t = 1, n = 1\<rparr> \<lparr>p = 3, t = 3, n = 3\<rparr> \<lparr>p = 4, t = 4, n = 4\<rparr>]
   \<and> face_record 1 None (''f 1/1/1 2/2/2 3/3/3 4/4/4'' @ CHR '' '' # ''5/5/5 6/6/6'')
       = Inr [Triangle \<lparr>p = 1, t = 1, n = 1\<rparr> \<lparr>p = 2, t = 2, n = 2\<rparr> \<lparr>p = 3, t = 3, n = 3\<rparr>,
              Triangle \<lparr>p = 1, t = 1, n = 1\<rparr> \<lparr>p = 3, t = 3, n = 3\<rparr> \<lparr>p = 4, t = 4, n = 4\<rparr>]
   \<and> line_header 16 ''f 1/1/1 2/2/2 3/3/3 4/4'' = Inr ''f''
   \<and> face_record 1 (Some ''x'') ''f 1/1/1 2/2/2 3/3/3 4/4'' = Inl (Exit 1 cant_load (Some ''x''))
   \<and> group_body 1 (Some ''x'') (''a'', ''f 1/1/1 2/2/2 3/3/3 4/4'', None)
        (0, 0, 0, [[]], scene0 :: real SceneData, None)
       = Inl (Exit 1 cant_load (Some ''x''))"
proof -
  have sp: "isspace CHR '' ''" by (simp add: isspace_def)
  note a = face_record_outcomes [of 1 None "''f 1/1/1 2/2/2 3/3/3 4/4/4''"]
  note b = face_record_outcomes [of 1 "Some ''x''" "''f 1/1/1 2/2/2 3/3/3 4/4''"]
  have "face_record 1 None (''f 1/1/1 2/2/2 3/3/3 4/4/4'' @ CHR '' '' # ''5/5/5 6/6/6'')
       = Inr [Triangle \<lparr>p = 1, t = 1, n = 1\<rparr> \<lparr>p = 2, t = 2, n = 2\<rparr> \<lparr>p = 3, t = 3, n = 3\<rparr>,
              Triangle \<lparr>p = 1, t = 1, n = 1\<rparr> \<lparr>p = 3, t = 3, n = 3\<rparr> \<lparr>p = 4, t = 4, n = 4\<rparr>]"
    using a sp ex_quad_face by blast
  moreover have "group_body 1 (Some ''x'') (''a'', ''f 1/1/1 2/2/2 3/3/3 4/4'', None)
        (0, 0, 0, [[]], scene0 :: real SceneData, None)
       = Inl (Exit 1 cant_load (Some ''x''))"
    using b ex_partial_face by blast
  ultimately show ?thesis
    using sp ex_quad_face ex_partial_face by simp
qed

text \<open>
  Claim C3. A face record with other than three or four corner records is to stop the
  run: the test after the scan refuses every count of converted fields but those of
  three and of four corners. The formats hold four corner records and the scan ends
  with them, so a face of five corners converts thirteen fields, as a quad does: it is
  accepted, and the pass stores the two triangles of its first four corners in the
  group.
\<close>

theorem five_corner_face_accepted:
  "length (tokens ''f 1/1/1 2/2/2 3/3/3 4/4/4 5/5/5'') = 6
   \<and> matches_of (sscanf no_float ''f 1/1/1 2/2/2 3/3/3 4/4/4 5/5/5'' face_format_textured) = 13
   \<and> face_record 1 None ''f 1/1/1 2/2/2 3/3/3 4/4/4 5/5/5''
       = Inr [Triangle \<lparr>p = 1, t = 1, n = 1\<rparr> \<lparr>p = 2, t = 2, n = 2\<rparr> \<lparr>p = 3, t = 3, n = 3\<rparr>,
              Triangle \<lparr>p = 1, t = 1, n = 1\<rparr> \<lparr>p = 3, t = 3, n = 3\<rparr> \<lparr>p = 4, t = 4, n = 4\<rparr>]
   \<and> group_body 1 None (''f 1/1/1 2/2/2 3/3/3 4/4/4 5/5/5'', ''f 1/1/1 2/2/2 3/3/3 4/4/4 5/5/5'', None)
        (0, 0, 0, [[]], scene0 :: real SceneData, None)
       = Inr (0, 0, 0,
              [[Triangle \<lparr>p = 1, t = 1, n = 1\<rparr> \<lparr>p = 2, t = 2, n = 2\<rparr> \<lparr>p = 3, t = 3, n = 3\<rparr>,
                Triangle \<lparr>p = 1, t = 1, n = 1\<rparr> \<lparr>p = 3, t = 3, n = 3\<rparr> \<lparr>p = 4, t = 4, n = 4\<rparr>]],
              scene0, Some ''f 1/1/1 2/2/2 3/3/3 4/4/4 5/5/5'')"
  by code_simp

section \<open>The group/face pass: mesh names\<close>

lemma dropWhile_idem: "dropWhile P (dropWhile P xs) = dropWhile P xs"
  by (induction xs) auto

lemma takeWhile_word_Nil:
  "takeWhile (\<lambda>c. \<not> isspace c) (dropWhile isspace inp) = [] \<longleftrightarrow> dropWhile isspace inp = []"
proof (cases "dropWhile isspace inp")
  case Nil
  show ?thesis unfolding Nil by simp
next
  case (Cons c rest)
  have "\<not> isspace c" using Cons hd_dropWhile [of isspace inp] by auto
  then show ?thesis by (simp add: Cons)
qed

lemma two_words_format: "parse_format ''%s %s\<newline>'' = [PctS, Space, PctS, Space]"
  by (simp add: isspace_def)

lemma one_word_format: "parse_format ''%s'' = [PctS]"
  by simp

lemma tokens_cases:
  "(dropWhile isspace inp = [] \<and> tokens inp = []) \<or>
   (dropWhile isspace inp \<noteq> [] \<and>
    tokens inp = takeWhile (\<lambda>c. \<not> isspace c) (dropWhile isspace inp)
                   # tokens (dropWhile (\<lambda>c. \<not> isspace c) (dropWhile isspace inp)))"
  using tokens.simps [of inp] by (cases "dropWhile isspace inp = []") simp_all

lemma scan_PctS:
  "scan sf inp (PctS # ds) =
     (case tokens inp of
        [] \<Rightarrow> []
      | w # _ \<Rightarrow> Str_val w # scan sf (dropWhile (\<lambda>c. \<not> isspace c) (dropWhile isspace inp)) ds)"
proof -
  from tokens_cases [of inp] show ?thesis
  proof
    assume a: "dropWhile isspace inp = [] \<and> tokens inp = []"
    then have d: "dropWhile isspace inp = []" and t: "tokens inp = []" by blast+
    show ?thesis unfolding scan.simps Let_def d t by simp
  next
    assume a: "dropWhile isspace inp \<noteq> [] \<and>
      tokens inp = takeWhile (\<lambda>c. \<not> isspace c) (dropWhile isspace inp)
                   # tokens (dropWhile (\<lambda>c. \<not> isspace c) (dropWhile isspace inp))"
    then have ne: "takeWhile (\<lambda>c. \<not> isspace c) (dropWhile isspace inp) \<noteq> []"
      using takeWhile_word_Nil [of inp] by blast
    from a have t: "tokens inp = takeWhile (\<lambda>c. \<not> isspace c) (dropWhile isspace inp)
                   # tokens (dropWhile (\<lambda>c. \<not> isspace c) (dropWhile isspace inp))"
      by blast
    show ?thesis unfolding scan.simps Let_def t using ne by simp
  qed
qed

lemma tokens_tail:
  "tokens (dropWhile (\<lambda>c. \<not> isspace c) (dropWhile isspace inp)) = tl (tokens inp)"
proof -
  from tokens_cases [of inp] show ?thesis
  proof
    assume a: "dropWhile isspace inp = [] \<and> tokens inp = []"
    then have d: "dropWhile isspace inp = []" and t: "tokens inp = []" by blast+
    have "tokens [] = []" using tokens.simps [of "[]"] by simp
    then show ?thesis unfolding d t by simp
  next
    assume a: "dropWhile isspace inp \<noteq> [] \<and>
      tokens inp = takeWhile (\<lambda>c. \<not> isspace c) (dropWhile isspace inp)
                   # tokens (dropWhile (\<lambda>c. \<not> isspace c) (dropWhile isspace inp))"
    then have "tl (tokens inp) = tokens (dropWhile (\<lambda>c. \<not> isspace c) (dropWhile isspace inp))"
      by (metis list.sel(3))
    then show ?thesis by simp
  qed
qed

lemma tokens_skip: "tokens (dropWhile isspace inp) = tokens inp"
  using tokens.simps [of inp] tokens.simps [of "dropWhile isspace inp"]
  by (simp only: dropWhile_idem)

lemma sscanf_one_word: "sscanf sf inp ''%s'' = map Str_val (take 1 (tokens inp))"
  unfolding sscanf_def one_word_format scan_PctS
  by (cases "tokens inp") simp_all

lemma sscanf_two_words: "sscanf sf inp ''%s %s\<newline>'' = map Str_val (take 2 (tokens inp))"
proof -
  let ?rest = "dropWhile (\<lambda>c. \<not> isspace c) (dropWhile isspace inp)"
  have r: "tokens (dropWhile isspace ?rest) = tl (tokens inp)"
    by (simp only: tokens_skip tokens_tail)
  have "scan sf inp [PctS, Space, PctS, Space] =
      (case tokens inp of [] \<Rightarrow> []
       | w # _ \<Rightarrow> Str_val w #
           (case tl (tokens inp) of [] \<Rightarrow> [] | w2 # _ \<Rightarrow> [Str_val w2]))"
    by (simp only: scan_PctS [of sf inp] scan.simps(2) scan_PctS [of sf "dropWhile isspace ?rest"]
        scan.simps(1) r)
  then show ?thesis
    unfolding sscanf_def two_words_format
    by (cases "tokens inp"; cases "tl (tokens inp)") simp_all
qed

lemma line_header_tokens:
  "line_header capacity line =
     (case tokens line of [] \<Rightarrow> Inr [] | h # _ \<Rightarrow> store capacity h)"
  by (cases "tokens line") (simp_all add: line_header_def sscanf_one_word)


lemma scan_name_Some:
  assumes "scan_name hc c inp = Inr (m, Some s)"
  shows "m = 2"
proof (cases "tokens inp")
  case Nil
  then show ?thesis using assms
    by (simp add: scan_name_def sscanf_two_words matches_of_def)
next
  case (Cons h ts)
  show ?thesis
  proof (cases ts)
    case Nil
    then show ?thesis using assms Cons
      by (simp add: scan_name_def sscanf_two_words matches_of_def split: sum.splits)
  next
    case c2: (Cons s us)
    then show ?thesis using assms Cons
      by (auto simp add: scan_name_def sscanf_two_words matches_of_def store_def
          split: sum.splits if_splits)
  qed
qed

declare decimal.simps [simp del]


lemma strncpy_fits: "count \<le> capacity \<Longrightarrow> strncpy capacity src count = Inr (take count src)"
  by (simp add: strncpy_def)




















section \<open>The group/face pass: the group cursor\<close>













end
